theory Spec2Isabelle
  imports Complex_Main "HOL-Library.Multiset"
begin

section \<open>Batch processing engine of \<^verbatim>\<open>backend/services/batch_service.py\<close>\<close>

text \<open>
  The engine keeps a table of batches, each with a list of job objects, a priority queue
  of job objects waiting to run, and one worker thread that pops jobs and runs them while
  the thread of the API serves the calls. Job objects are shared between the table and the
  queue, so the model keeps them in an object store and both the table and the queue hold
  references (indices into the store).

  Python's unbounded integers are \<^typ>\<open>int\<close>, a \<^verbatim>\<open>dict\<close> is an association list in
  insertion order, and every value that the source takes from its environment (the clock,
  \<^verbatim>\<open>uuid.uuid4()\<close>, the outcome of a task executor) is a parameter of the operation that
  reads it. A float is held as the real number it stands for. The source's arithmetic on
  floats rounds, so the heuristic \<^verbatim>\<open>_estimate_batch_duration\<close> is not embedded: the
  estimate it returns is a parameter of the submission, and the two durations that are
  differences of timestamps are exact here where the source rounds them.
\<close>

subsection \<open>Enumerations\<close>

datatype JobStatus = PENDING | PROCESSING | COMPLETED | FAILED | CANCELLED

datatype JobPriority = LOW | MEDIUM | HIGH | URGENT

text \<open>The \<^verbatim>\<open>.value\<close> of each member, and the lookup by value that the enum's constructor does
  (\<^verbatim>\<open>JobPriority(2)\<close>, \<^verbatim>\<open>JobStatus("pending")\<close>; \<^verbatim>\<open>ValueError\<close> is \<open>None\<close>).\<close>

fun priority_value :: "JobPriority \<Rightarrow> int" where
  "priority_value LOW = 3"
| "priority_value MEDIUM = 2"
| "priority_value HIGH = 1"
| "priority_value URGENT = 0"

definition JobPriority_of :: "int \<Rightarrow> JobPriority option" where
  "JobPriority_of v =
     (if v = 3 then Some LOW else if v = 2 then Some MEDIUM
      else if v = 1 then Some HIGH else if v = 0 then Some URGENT else None)"

fun status_value :: "JobStatus \<Rightarrow> string" where
  "status_value PENDING = ''pending''"
| "status_value PROCESSING = ''processing''"
| "status_value COMPLETED = ''completed''"
| "status_value FAILED = ''failed''"
| "status_value CANCELLED = ''cancelled''"

definition JobStatus_of :: "string \<Rightarrow> JobStatus option" where
  "JobStatus_of v =
     (if v = ''pending'' then Some PENDING else if v = ''processing'' then Some PROCESSING
      else if v = ''completed'' then Some COMPLETED else if v = ''failed'' then Some FAILED
      else if v = ''cancelled'' then Some CANCELLED else None)"

subsection \<open>Payload values and timestamps\<close>

text \<open>The payloads (\<^verbatim>\<open>Dict[str, Any]\<close>) hold what the API layer's request models and JSON
  can hold.\<close>

datatype json =
    JNull
  | JBool bool
  | JInt int
  | JFloat real
  | JStr string
  | JArr "json list"
  | JObj "(string \<times> json) list"

text \<open>A naive \<^verbatim>\<open>datetime\<close>, by its fields.\<close>

record datetime =
  year :: nat
  month :: nat
  day :: nat
  hour :: nat
  minute :: nat
  second :: nat
  microsecond :: nat

definition dt_fields :: "datetime \<Rightarrow> nat list" where
  "dt_fields d = [year d, month d, day d, hour d, minute d, second d, microsecond d]"

fun lex_lt :: "nat list \<Rightarrow> nat list \<Rightarrow> bool" where
  "lex_lt (x # xs) (y # ys) = (x < y \<or> (x = y \<and> lex_lt xs ys))"
| "lex_lt _ _ = False"

text \<open>\<^verbatim>\<open>a < b\<close> on naive datetimes compares the field tuples.\<close>

definition dt_lt :: "datetime \<Rightarrow> datetime \<Rightarrow> bool" where
  "dt_lt a b = lex_lt (dt_fields a) (dt_fields b)"

subsection \<open>Jobs and batches\<close>

record BatchJob =
  job_id :: string
  job_type :: string
  input_data :: "(string \<times> json) list"
  priority :: JobPriority
  status :: JobStatus
  created_at :: datetime
  started_at :: "datetime option"
  completed_at :: "datetime option"
  progress :: real
  result :: "(string \<times> json) list option"
  error :: "string option"
  retry_count :: int
  max_retries :: int

text \<open>\<^verbatim>\<open>BatchJob.__lt__\<close>: the comparison the priority queue applies.\<close>

definition BatchJob_lt :: "BatchJob \<Rightarrow> BatchJob \<Rightarrow> bool" where
  "BatchJob_lt self other = (priority_value (priority self) < priority_value (priority other))"

text \<open>A batch lists its jobs; \<open>'j\<close> is how a job is held: a reference into the object store
  in the running service, the job itself in a snapshot.\<close>

record 'j BatchRequest =
  batch_id :: string
  name :: string
  jobs :: "'j list"
  batch_created_at :: datetime
  total_jobs :: int
  completed_jobs :: int
  failed_jobs :: int
  batch_status :: JobStatus
  estimated_duration :: "real option"
  actual_duration :: "real option"

subsection \<open>The priority queue: \<^verbatim>\<open>queue.PriorityQueue\<close> over \<^verbatim>\<open>heapq\<close>\<close>

text \<open>
  \<^verbatim>\<open>PriorityQueue.put\<close> is \<^verbatim>\<open>heapq.heappush\<close> and \<^verbatim>\<open>PriorityQueue.get\<close> is
  \<^verbatim>\<open>heapq.heappop\<close> on one list; both compare items with \<^verbatim>\<open>__lt__\<close> only. The two sift
  loops move a hole through the list and write the item once at the end, as the library
  does.
\<close>

function siftdown_loop ::
  "('a \<Rightarrow> 'a \<Rightarrow> bool) \<Rightarrow> 'a list \<Rightarrow> nat \<Rightarrow> nat \<Rightarrow> 'a \<Rightarrow> 'a list \<times> nat" where
  "siftdown_loop lt heap startpos pos newitem =
     (if pos > startpos then
        (let parentpos = (pos - 1) div 2;
             parent = heap ! parentpos
         in if lt newitem parent
            then siftdown_loop lt (heap[pos := parent]) startpos parentpos newitem
            else (heap, pos))
      else (heap, pos))"
  by pat_completeness auto
termination
  by (relation "measure (\<lambda>(lt, heap, startpos, pos, newitem). pos)") auto

declare siftdown_loop.simps [simp del]

definition siftdown :: "('a \<Rightarrow> 'a \<Rightarrow> bool) \<Rightarrow> 'a list \<Rightarrow> nat \<Rightarrow> nat \<Rightarrow> 'a list" where
  "siftdown lt heap startpos pos =
     (let newitem = heap ! pos;
          (heap', pos') = siftdown_loop lt heap startpos pos newitem
      in heap'[pos' := newitem])"

function siftup_loop :: "('a \<Rightarrow> 'a \<Rightarrow> bool) \<Rightarrow> 'a list \<Rightarrow> nat \<Rightarrow> 'a list \<times> nat" where
  "siftup_loop lt heap pos =
     (let endpos = length heap;
          childpos = 2 * pos + 1
      in if childpos < endpos then
           (let rightpos = childpos + 1;
                childpos' = (if rightpos < endpos \<and> \<not> lt (heap ! childpos) (heap ! rightpos)
                             then rightpos else childpos)
            in siftup_loop lt (heap[pos := heap ! childpos']) childpos')
         else (heap, pos))"
  by pat_completeness auto
termination
  by (relation "measure (\<lambda>(lt, heap, pos). length heap - pos)") (auto simp: Let_def)

declare siftup_loop.simps [simp del]

definition siftup :: "('a \<Rightarrow> 'a \<Rightarrow> bool) \<Rightarrow> 'a list \<Rightarrow> nat \<Rightarrow> 'a list" where
  "siftup lt heap pos =
     (let newitem = heap ! pos;
          (heap', pos') = siftup_loop lt heap pos
      in siftdown lt (heap'[pos' := newitem]) pos pos')"

definition heappush :: "('a \<Rightarrow> 'a \<Rightarrow> bool) \<Rightarrow> 'a list \<Rightarrow> 'a \<Rightarrow> 'a list" where
  "heappush lt heap item = siftdown lt (heap @ [item]) 0 (length heap)"

text \<open>\<open>None\<close> is the empty queue (\<^verbatim>\<open>IndexError\<close> in \<^verbatim>\<open>heappop\<close>, \<^verbatim>\<open>queue.Empty\<close> from
  \<^verbatim>\<open>get(timeout=1.0)\<close>).\<close>

definition heappop :: "('a \<Rightarrow> 'a \<Rightarrow> bool) \<Rightarrow> 'a list \<Rightarrow> ('a \<times> 'a list) option" where
  "heappop lt heap =
     (if heap = [] then None
      else (let lastelt = last heap;
                heap' = butlast heap
            in if heap' \<noteq> [] then Some (heap' ! 0, siftup lt (heap'[0 := lastelt]) 0)
               else Some (lastelt, [])))"

subsection \<open>Calendar arithmetic of \<^verbatim>\<open>datetime\<close>\<close>

text \<open>The proleptic Gregorian ordinal of a date and its inverse, as the library computes
  them; they serve \<^verbatim>\<open>datetime - timedelta\<close> and \<^verbatim>\<open>(a - b).total_seconds()\<close>.\<close>

definition is_leap :: "int \<Rightarrow> bool" where
  "is_leap y = (y mod 4 = 0 \<and> (y mod 100 \<noteq> 0 \<or> y mod 400 = 0))"

definition days_before_year :: "int \<Rightarrow> int" where
  "days_before_year y = (let z = y - 1 in z * 365 + z div 4 - z div 100 + z div 400)"

definition DAYS_IN_MONTH :: "int list" where
  "DAYS_IN_MONTH = [-1, 31, 28, 31, 30, 31, 30, 31, 31, 30, 31, 30, 31]"

definition DAYS_BEFORE_MONTH :: "int list" where
  "DAYS_BEFORE_MONTH = [-1, 0, 31, 59, 90, 120, 151, 181, 212, 243, 273, 304, 334]"

definition days_before_month :: "int \<Rightarrow> nat \<Rightarrow> int" where
  "days_before_month y m = DAYS_BEFORE_MONTH ! m + (if m > 2 \<and> is_leap y then 1 else 0)"

definition ymd2ord :: "int \<Rightarrow> nat \<Rightarrow> int \<Rightarrow> int" where
  "ymd2ord y m d = days_before_year y + days_before_month y m + d"

definition ord2ymd :: "int \<Rightarrow> int \<times> nat \<times> int" where
  "ord2ymd n0 =
     (let n = n0 - 1;
          n400 = n div 146097; n = n mod 146097;
          y = n400 * 400 + 1;
          n100 = n div 36524; n = n mod 36524;
          n4 = n div 1461; n = n mod 1461;
          n1 = n div 365; n = n mod 365;
          y = y + n100 * 100 + n4 * 4 + n1
      in if n1 = 4 \<or> n100 = 4 then (y - 1, 12, 31)
         else (let leapyear = (n1 = 3 \<and> (n4 \<noteq> 24 \<or> n100 = 3));
                   m = nat ((n + 50) div 32);
                   preceding = DAYS_BEFORE_MONTH ! m + (if m > 2 \<and> leapyear then 1 else 0)
               in if preceding > n
                  then (let m' = m - 1;
                            preceding' = preceding
                              - (DAYS_IN_MONTH ! m' + (if m' = 2 \<and> leapyear then 1 else 0))
                        in (y, m', n - preceding' + 1))
                  else (y, m, n - preceding + 1)))"

definition toordinal :: "datetime \<Rightarrow> int" where
  "toordinal d = ymd2ord (int (year d)) (month d) (int (day d))"

text \<open>\<^verbatim>\<open>d - timedelta(days=n)\<close>; \<open>None\<close> is \<^verbatim>\<open>OverflowError\<close> (the date leaves years 1..9999).\<close>

definition minus_days :: "datetime \<Rightarrow> int \<Rightarrow> datetime option" where
  "minus_days d n =
     (let ordinal = toordinal d - n
      in if 0 < ordinal \<and> ordinal \<le> 3652059
         then (case ord2ymd ordinal of (y, m, dd) \<Rightarrow>
                 Some (d\<lparr>year := nat y, month := m, day := nat dd\<rparr>))
         else None)"

text \<open>\<^verbatim>\<open>(a - b).total_seconds()\<close>.\<close>

definition seconds_of_day :: "datetime \<Rightarrow> int" where
  "seconds_of_day d = int (hour d) * 3600 + int (minute d) * 60 + int (second d)"

definition total_seconds_between :: "datetime \<Rightarrow> datetime \<Rightarrow> real" where
  "total_seconds_between a b =
     real_of_int (((toordinal a - toordinal b) * 86400 + (seconds_of_day a - seconds_of_day b))
                    * 1000000 + (int (microsecond a) - int (microsecond b))) / 1000000"

fun dt_max :: "datetime list \<Rightarrow> datetime \<Rightarrow> datetime" where
  "dt_max [] m = m"
| "dt_max (d # ds) m = dt_max ds (if dt_lt m d then d else m)"

fun dt_min :: "datetime list \<Rightarrow> datetime \<Rightarrow> datetime" where
  "dt_min [] m = m"
| "dt_min (d # ds) m = dt_min ds (if dt_lt d m then d else m)"

subsection \<open>Strings\<close>

text \<open>\<^verbatim>\<open>str(i)\<close> of a non-negative integer, and zero-padded decimal fields.\<close>

definition digit_char :: "nat \<Rightarrow> char" where
  "digit_char n = ''0123456789'' ! (n mod 10)"

fun pad :: "nat \<Rightarrow> nat \<Rightarrow> string" where
  "pad 0 n = []"
| "pad (Suc k) n = pad k (n div 10) @ [digit_char n]"

fun str_nat_fuel :: "nat \<Rightarrow> nat \<Rightarrow> string" where
  "str_nat_fuel 0 n = [digit_char n]"
| "str_nat_fuel (Suc k) n =
     (if n < 10 then [digit_char n] else str_nat_fuel k (n div 10) @ [digit_char n])"

definition str_nat :: "nat \<Rightarrow> string" where
  "str_nat n = str_nat_fuel n n"

text \<open>\<^verbatim>\<open>s.split(c)\<close> for a one-character separator.\<close>

fun split_char :: "char \<Rightarrow> string \<Rightarrow> string list" where
  "split_char c [] = [[]]"
| "split_char c (x # xs) =
     (if x = c then [] # split_char c xs
      else (case split_char c xs of w # ws \<Rightarrow> (x # w) # ws | [] \<Rightarrow> [[x]]))"

text \<open>The text of \<^verbatim>\<open>str(uuid.uuid4())\<close>: 36 characters, hyphens at 8, 13, 18 and 23, lower-case
  hexadecimal digits elsewhere.\<close>

definition is_uuid_str :: "string \<Rightarrow> bool" where
  "is_uuid_str s =
     (length s = 36 \<and>
      list_all (\<lambda>(i, c). if i = 8 \<or> i = 13 \<or> i = 18 \<or> i = 23 then c = CHR ''-''
                          else c \<in> set ''0123456789abcdef'') (zip [0..<36] s))"

subsection \<open>Dictionaries\<close>

fun dict_set :: "('k \<times> 'v) list \<Rightarrow> 'k \<Rightarrow> 'v \<Rightarrow> ('k \<times> 'v) list" where
  "dict_set [] k v = [(k, v)]"
| "dict_set ((k', v') # d) k v = (if k' = k then (k, v) # d else (k', v') # dict_set d k v)"

definition dict_del :: "('k \<times> 'v) list \<Rightarrow> 'k \<Rightarrow> ('k \<times> 'v) list" where
  "dict_del d k = filter (\<lambda>kv. fst kv \<noteq> k) d"

subsection \<open>The service\<close>

record Stats =
  total_jobs_processed :: int
  total_jobs_failed :: int
  average_processing_time :: real
  queue_size :: int
  active_workers :: int

text \<open>
  Where the worker thread stands in \<^verbatim>\<open>_process_queue\<close>: \<open>Idle\<close> before the \<^verbatim>\<open>get\<close> on the
  queue; \<open>Popped r\<close> when the \<^verbatim>\<open>get\<close> has returned job \<open>r\<close>; \<open>Accepted r\<close> when the test
  of the job's status has let \<open>r\<close> through and \<^verbatim>\<open>_process_job\<close> is entered; \<open>Running r\<close>
  when \<^verbatim>\<open>_process_job\<close> has marked \<open>r\<close> as being processed and the task executor runs;
  \<open>Finishing r\<close> after the \<^verbatim>\<open>try\<close> or the \<^verbatim>\<open>except\<close> branch, before the \<^verbatim>\<open>finally\<close> branch.
\<close>

datatype worker_pc = Idle | Popped nat | Accepted nat | Running nat | Finishing nat

text \<open>
  \<open>objects\<close> is the store of job objects; a reference is an index into it.
  \<open>finished_jobs\<close> is the dictionary \<^verbatim>\<open>self.completed_jobs\<close>, and \<open>batch_file\<close> is the
  content of \<^verbatim>\<open>batch_requests.json\<close>.
\<close>

record Service =
  max_workers :: int
  objects :: "BatchJob list"
  job_queue :: "nat list"
  active_jobs :: "(string \<times> nat) list"
  finished_jobs :: "(string \<times> nat) list"
  batch_requests :: "(string \<times> nat BatchRequest) list"
  stats :: Stats
  worker :: worker_pc
  batch_file :: "json option"

text \<open>The queue compares two job objects through their references.\<close>

definition job_lt :: "BatchJob list \<Rightarrow> nat \<Rightarrow> nat \<Rightarrow> bool" where
  "job_lt objs a b = BatchJob_lt (objs ! a) (objs ! b)"

definition queue_put :: "nat \<Rightarrow> Service \<Rightarrow> Service" where
  "queue_put r s = s\<lparr>job_queue := heappush (job_lt (objects s)) (job_queue s) r\<rparr>"

definition queue_get :: "Service \<Rightarrow> (nat \<times> Service) option" where
  "queue_get s =
     (case heappop (job_lt (objects s)) (job_queue s) of
        None \<Rightarrow> None
      | Some (r, q) \<Rightarrow> Some (r, s\<lparr>job_queue := q\<rparr>))"

subsection \<open>Saving the table: \<^verbatim>\<open>_save_persistent_data\<close>\<close>

text \<open>\<^verbatim>\<open>datetime.isoformat()\<close>: the microseconds are written only when they are not zero.\<close>

definition isoformat :: "datetime \<Rightarrow> string" where
  "isoformat d =
     pad 4 (year d) @ ''-'' @ pad 2 (month d) @ ''-'' @ pad 2 (day d) @ ''T'' @
     pad 2 (hour d) @ '':'' @ pad 2 (minute d) @ '':'' @ pad 2 (second d) @
     (if microsecond d = 0 then [] else ''.'' @ pad 6 (microsecond d))"

definition opt_json :: "('a \<Rightarrow> json) \<Rightarrow> 'a option \<Rightarrow> json" where
  "opt_json f v = (case v of None \<Rightarrow> JNull | Some x \<Rightarrow> f x)"

text \<open>\<^verbatim>\<open>asdict(job)\<close> with the timestamps and enums replaced, key by key in the order of the
  dataclass fields.\<close>

definition job_to_json :: "BatchJob \<Rightarrow> json" where
  "job_to_json job = JObj
     [(''id'', JStr (job_id job)),
      (''job_type'', JStr (job_type job)),
      (''input_data'', JObj (input_data job)),
      (''priority'', JInt (priority_value (priority job))),
      (''status'', JStr (status_value (status job))),
      (''created_at'', JStr (isoformat (created_at job))),
      (''started_at'', opt_json (\<lambda>d. JStr (isoformat d)) (started_at job)),
      (''completed_at'', opt_json (\<lambda>d. JStr (isoformat d)) (completed_at job)),
      (''progress'', JFloat (progress job)),
      (''result'', opt_json JObj (result job)),
      (''error'', opt_json JStr (error job)),
      (''retry_count'', JInt (retry_count job)),
      (''max_retries'', JInt (max_retries job))]"

definition batch_to_json :: "BatchJob BatchRequest \<Rightarrow> json" where
  "batch_to_json b = JObj
     [(''id'', JStr (batch_id b)),
      (''name'', JStr (name b)),
      (''jobs'', JArr (map job_to_json (jobs b))),
      (''created_at'', JStr (isoformat (batch_created_at b))),
      (''total_jobs'', JInt (total_jobs b)),
      (''completed_jobs'', JInt (completed_jobs b)),
      (''failed_jobs'', JInt (failed_jobs b)),
      (''status'', JStr (status_value (batch_status b))),
      (''estimated_duration'', opt_json JFloat (estimated_duration b)),
      (''actual_duration'', opt_json JFloat (actual_duration b))]"

definition stats_to_json :: "Stats \<Rightarrow> json" where
  "stats_to_json st = JObj
     [(''total_jobs_processed'', JInt (total_jobs_processed st)),
      (''total_jobs_failed'', JInt (total_jobs_failed st)),
      (''average_processing_time'', JFloat (average_processing_time st)),
      (''queue_size'', JInt (queue_size st)),
      (''active_workers'', JInt (active_workers st))]"

text \<open>A batch with its job objects in place of the references.\<close>

definition resolve :: "BatchJob list \<Rightarrow> nat BatchRequest \<Rightarrow> BatchJob BatchRequest" where
  "resolve objs b =
     \<lparr>batch_id = batch_id b, name = name b, jobs = map (\<lambda>r. objs ! r) (jobs b),
      batch_created_at = batch_created_at b, total_jobs = total_jobs b,
      completed_jobs = completed_jobs b, failed_jobs = failed_jobs b,
      batch_status = batch_status b, estimated_duration = estimated_duration b,
      actual_duration = actual_duration b\<rparr>"

definition table :: "Service \<Rightarrow> (string \<times> BatchJob BatchRequest) list" where
  "table s = map (\<lambda>kv. (fst kv, resolve (objects s) (snd kv))) (batch_requests s)"

definition snapshot :: "Service \<Rightarrow> json" where
  "snapshot s = JObj
     [(''batch_requests'', JObj (map (\<lambda>kv. (fst kv, batch_to_json (snd kv))) (table s))),
      (''stats'', stats_to_json (stats s))]"

text \<open>The document is written as JSON text and read back by \<^verbatim>\<open>json.load\<close>; the model keeps
  the document itself. A failing write is logged by the source and changes nothing in
  memory; it is not modelled.\<close>

definition save_persistent_data :: "Service \<Rightarrow> Service" where
  "save_persistent_data s = s\<lparr>batch_file := Some (snapshot s)\<rparr>"

subsection \<open>The batch aggregator: \<^verbatim>\<open>_update_batch_status\<close>\<close>

definition count_status :: "BatchJob list \<Rightarrow> JobStatus \<Rightarrow> nat list \<Rightarrow> int" where
  "count_status objs st rs = int (length (filter (\<lambda>r. status (objs ! r) = st) rs))"

definition batch_duration :: "BatchJob list \<Rightarrow> nat list \<Rightarrow> real option" where
  "batch_duration objs rs =
     (let start_times = List.map_filter (\<lambda>r. started_at (objs ! r)) rs;
          end_times = List.map_filter (\<lambda>r. completed_at (objs ! r)) rs
      in case (start_times, end_times) of
           (st # sts, en # ens) \<Rightarrow> Some (total_seconds_between (dt_max ens en) (dt_min sts st))
         | _ \<Rightarrow> None)"

text \<open>The recount of one batch against the job objects as they are now.\<close>

definition recount :: "BatchJob list \<Rightarrow> nat BatchRequest \<Rightarrow> nat BatchRequest" where
  "recount objs b =
     (let completed = count_status objs COMPLETED (jobs b);
          failed = count_status objs FAILED (jobs b);
          b1 = b\<lparr>completed_jobs := completed, failed_jobs := failed\<rparr>
      in if completed + failed = total_jobs b1 then
           (let b2 = (if failed = 0 then b1\<lparr>batch_status := COMPLETED\<rparr>
                      else if completed = 0 then b1\<lparr>batch_status := FAILED\<rparr>
                      else b1\<lparr>batch_status := COMPLETED\<rparr>)
            in case batch_duration objs (jobs b2) of
                 None \<Rightarrow> b2
               | Some d \<Rightarrow> b2\<lparr>actual_duration := Some d\<rparr>)
         else b1)"

definition update_batch_status :: "nat \<Rightarrow> Service \<Rightarrow> Service" where
  "update_batch_status r s =
     (let bid = hd (split_char CHR ''_'' (job_id (objects s ! r)))
      in case map_of (batch_requests s) bid of
           None \<Rightarrow> s
         | Some b \<Rightarrow> s\<lparr>batch_requests := dict_set (batch_requests s) bid (recount (objects s) b)\<rparr>)"

subsection \<open>Submitting a batch\<close>

text \<open>
  The three operations \<^verbatim>\<open>create_video_batch\<close>, \<^verbatim>\<open>create_audio_batch\<close> and
  \<^verbatim>\<open>create_translation_batch\<close> have one body up to the job type and the default name.
  \<open>uuid\<close> is the text of \<^verbatim>\<open>uuid.uuid4()\<close>, \<open>clock k\<close> is the \<open>k\<close>-th reading of
  \<^verbatim>\<open>datetime.now()\<close> in the call and \<open>est\<close> is what \<^verbatim>\<open>_estimate_batch_duration\<close> returns
  for the new jobs.
\<close>

text \<open>\<^verbatim>\<open>strftime('%Y%m%d_%H%M%S')\<close>; the C library writes the year without padding.\<close>

definition strftime_name :: "datetime \<Rightarrow> string" where
  "strftime_name d =
     str_nat (year d) @ pad 2 (month d) @ pad 2 (day d) @ ''_'' @
     pad 2 (hour d) @ pad 2 (minute d) @ pad 2 (second d)"

definition new_job ::
  "string \<Rightarrow> string \<Rightarrow> nat \<Rightarrow> (string \<times> json) list \<Rightarrow> JobPriority \<Rightarrow> datetime \<Rightarrow> BatchJob" where
  "new_job uuid kind i request prio now =
     \<lparr>job_id = uuid @ ''_'' @ kind @ ''_'' @ str_nat i, job_type = kind, input_data = request,
      priority = prio, status = PENDING, created_at = now, started_at = None,
      completed_at = None, progress = 0.0, result = None, error = None,
      retry_count = 0, max_retries = 3\<rparr>"

text \<open>One round of the loop over the requests: the job object is allocated and put on the
  queue, where the worker can take it at once. The result is the reference of the new
  object.\<close>

definition submit_job ::
  "string \<Rightarrow> string \<Rightarrow> nat \<Rightarrow> (string \<times> json) list \<Rightarrow> JobPriority \<Rightarrow> datetime \<Rightarrow> Service
     \<Rightarrow> nat \<times> Service" where
  "submit_job uuid kind i request prio now s =
     (let r = length (objects s);
          s1 = s\<lparr>objects := objects s @ [new_job uuid kind i request prio now]\<rparr>
      in (r, queue_put r s1))"

fun add_jobs ::
  "string \<Rightarrow> string \<Rightarrow> JobPriority \<Rightarrow> (nat \<Rightarrow> datetime) \<Rightarrow> nat \<Rightarrow> (string \<times> json) list list
     \<Rightarrow> nat list \<Rightarrow> Service \<Rightarrow> nat list \<times> Service" where
  "add_jobs uuid kind prio clock i [] js s = (js, s)"
| "add_jobs uuid kind prio clock i (request # requests) js s =
     (let (r, s1) = submit_job uuid kind i request prio (clock i) s
      in add_jobs uuid kind prio clock (i + 1) requests (js @ [r]) s1)"

text \<open>After the loop: the batch is built and stored in the table, the queue size goes to the
  statistics and the table is saved.\<close>

definition store_batch :: "string \<Rightarrow> string \<Rightarrow> nat list \<Rightarrow> datetime \<Rightarrow> real \<Rightarrow> Service \<Rightarrow> Service" where
  "store_batch uuid nm js now est s =
     (let batch_request =
            \<lparr>batch_id = uuid, name = nm, jobs = js, batch_created_at = now,
             total_jobs = int (length js), completed_jobs = 0, failed_jobs = 0,
             batch_status = PENDING, estimated_duration = Some est, actual_duration = None\<rparr>;
          s1 = s\<lparr>batch_requests := dict_set (batch_requests s) uuid batch_request\<rparr>;
          s2 = s1\<lparr>stats := (stats s1)\<lparr>queue_size := int (length (job_queue s1))\<rparr>\<rparr>
      in save_persistent_data s2)"

text \<open>The whole call, when the worker does not run in between. The clock is read for the
  default name only when no name is given (\<^verbatim>\<open>batch_name or ...\<close>), so \<open>k\<close> readings, none or
  one, come before the readings that date the jobs, and the last reading dates the batch.\<close>

definition create_batch ::
  "string \<Rightarrow> string \<Rightarrow> string \<Rightarrow> (nat \<Rightarrow> datetime) \<Rightarrow> real \<Rightarrow> (string \<times> json) list list
     \<Rightarrow> string option \<Rightarrow> JobPriority \<Rightarrow> Service \<Rightarrow> string \<times> Service" where
  "create_batch kind title uuid clock est requests batch_name prio s =
     (let (nm, k) = (case batch_name of
                       None \<Rightarrow> (title @ '' Batch '' @ strftime_name (clock 0), 1)
                     | Some n \<Rightarrow> if n = [] then (title @ '' Batch '' @ strftime_name (clock 0), 1)
                                 else (n, 0));
          (js, s1) = add_jobs uuid kind prio (\<lambda>i. clock (k + i)) 0 requests [] s
      in (uuid, store_batch uuid nm js (clock (k + length requests)) est s1))"

definition create_video_batch ::
  "string \<Rightarrow> (nat \<Rightarrow> datetime) \<Rightarrow> real \<Rightarrow> (string \<times> json) list list \<Rightarrow> string option \<Rightarrow> JobPriority
     \<Rightarrow> Service \<Rightarrow> string \<times> Service" where
  "create_video_batch = create_batch ''video'' ''Video''"

definition create_audio_batch ::
  "string \<Rightarrow> (nat \<Rightarrow> datetime) \<Rightarrow> real \<Rightarrow> (string \<times> json) list list \<Rightarrow> string option \<Rightarrow> JobPriority
     \<Rightarrow> Service \<Rightarrow> string \<times> Service" where
  "create_audio_batch = create_batch ''audio'' ''Audio''"

definition create_translation_batch ::
  "string \<Rightarrow> (nat \<Rightarrow> datetime) \<Rightarrow> real \<Rightarrow> (string \<times> json) list list \<Rightarrow> string option \<Rightarrow> JobPriority
     \<Rightarrow> Service \<Rightarrow> string \<times> Service" where
  "create_translation_batch = create_batch ''translation'' ''Translation''"

subsection \<open>The worker: \<^verbatim>\<open>_process_queue\<close> and \<^verbatim>\<open>_process_job\<close>\<close>

text \<open>
  The worker thread and the thread of the API share the job objects, the queue and the
  table, and the source takes no lock around them. One pass of the worker's loop is
  therefore modelled as five steps, and the writes of the API may fall between any two of
  them: the \<^verbatim>\<open>get\<close> on the queue (\<open>worker_get\<close>), the test of the popped job's status
  (\<open>worker_test\<close>), the entry of \<^verbatim>\<open>_process_job\<close> that marks the job as being processed
  (\<open>worker_start\<close>), the \<^verbatim>\<open>try\<close> or \<^verbatim>\<open>except\<close> branch after the task executor has
  returned or raised (\<open>worker_outcome\<close>), and the \<^verbatim>\<open>finally\<close> branch (\<open>worker_finally\<close>).
  A step that is not the worker's next one changes nothing.
\<close>

text \<open>\<^verbatim>\<open>job = self.job_queue.get(timeout=1.0)\<close>; on an empty queue the loop starts again.\<close>

definition worker_get :: "Service \<Rightarrow> Service" where
  "worker_get s =
     (case worker s of
        Idle \<Rightarrow> (case queue_get s of
                   None \<Rightarrow> s
                 | Some (r, s1) \<Rightarrow> s1\<lparr>worker := Popped r\<rparr>)
      | _ \<Rightarrow> s)"

text \<open>\<^verbatim>\<open>if job.status == JobStatus.CANCELLED: continue\<close>.\<close>

definition worker_test :: "Service \<Rightarrow> Service" where
  "worker_test s =
     (case worker s of
        Popped r \<Rightarrow> if status (objects s ! r) = CANCELLED then s\<lparr>worker := Idle\<rparr>
                    else s\<lparr>worker := Accepted r\<rparr>
      | _ \<Rightarrow> s)"

definition set_object :: "nat \<Rightarrow> BatchJob \<Rightarrow> Service \<Rightarrow> Service" where
  "set_object r job s = s\<lparr>objects := (objects s)[r := job]\<rparr>"

text \<open>The first three statements of \<^verbatim>\<open>_process_job\<close>; the status of the job is written,
  not read.\<close>

definition process_job_begin :: "datetime \<Rightarrow> nat \<Rightarrow> Service \<Rightarrow> Service" where
  "process_job_begin now r s =
     (let job = (objects s ! r)\<lparr>status := PROCESSING, started_at := Some now\<rparr>;
          s1 = set_object r job s
      in s1\<lparr>active_jobs := dict_set (active_jobs s1) (job_id job) r, worker := Running r\<rparr>)"

definition worker_start :: "datetime \<Rightarrow> Service \<Rightarrow> Service" where
  "worker_start now s =
     (case worker s of
        Accepted r \<Rightarrow> process_job_begin now r s
      | _ \<Rightarrow> s)"

text \<open>\<^verbatim>\<open>JobPriority(min(job.priority.value + 1, JobPriority.LOW.value))\<close>; the value is always
  one of 1, 2, 3, so the lookup cannot fail.\<close>

definition requeue_priority :: "JobPriority \<Rightarrow> JobPriority" where
  "requeue_priority p =
     (case JobPriority_of (min (priority_value p + 1) (priority_value LOW)) of
        Some q \<Rightarrow> q
      | None \<Rightarrow> p)"

definition update_average_processing_time :: "real \<Rightarrow> Stats \<Rightarrow> Stats" where
  "update_average_processing_time processing_time st =
     (let current_avg = average_processing_time st;
          total_processed = total_jobs_processed st
      in if total_processed = 1 then st\<lparr>average_processing_time := processing_time\<rparr>
         else if total_processed = 0 then st
         else st\<lparr>average_processing_time :=
                   (current_avg * real_of_int (total_processed - 1) + processing_time)
                     / real_of_int total_processed\<rparr>)"

text \<open>
  The \<^verbatim>\<open>except\<close> branch of \<^verbatim>\<open>_process_job\<close>, first as it acts on the job object alone:
  the job as the branch leaves it, and whether the branch puts it on the queue again.
\<close>

definition retry_or_fail :: "string \<Rightarrow> datetime \<Rightarrow> BatchJob \<Rightarrow> BatchJob \<times> bool" where
  "retry_or_fail msg now job0 =
     (let job = job0\<lparr>status := FAILED, error := Some msg, completed_at := Some now\<rparr>
      in if retry_count job < max_retries job then
           (job\<lparr>retry_count := retry_count job + 1, status := PENDING,
                 started_at := None, completed_at := None, error := None,
                 priority := requeue_priority (priority job)\<rparr>, True)
         else (job, False))"

definition job_failed :: "string \<Rightarrow> datetime \<Rightarrow> nat \<Rightarrow> Service \<Rightarrow> Service" where
  "job_failed msg now r s =
     (let (job, again) = retry_or_fail msg now (objects s ! r);
          s1 = set_object r job s
      in if again then queue_put r s1
         else s1\<lparr>stats := (stats s1)\<lparr>total_jobs_failed := total_jobs_failed (stats s1) + 1\<rparr>\<rparr>)"

text \<open>The \<^verbatim>\<open>try\<close> branch after the executor has returned \<open>res\<close>. The subtraction of the
  timestamps raises when \<^verbatim>\<open>started_at\<close> is \<^verbatim>\<open>None\<close>, which sends the job to the
  \<^verbatim>\<open>except\<close> branch, where the clock is read again.\<close>

definition job_succeeded ::
  "(string \<times> json) list \<Rightarrow> datetime \<Rightarrow> datetime \<Rightarrow> nat \<Rightarrow> Service \<Rightarrow> Service" where
  "job_succeeded res now now' r s =
     (let job = (objects s ! r)\<lparr>status := COMPLETED, completed_at := Some now,
                                  result := Some res, progress := 100.0\<rparr>;
          s1 = set_object r job s;
          s2 = s1\<lparr>stats := (stats s1)\<lparr>total_jobs_processed := total_jobs_processed (stats s1) + 1\<rparr>\<rparr>
      in case started_at job of
           None \<Rightarrow> job_failed ''unsupported operand type(s) for -'' now' r s2
         | Some t0 \<Rightarrow>
             s2\<lparr>stats := update_average_processing_time (total_seconds_between now t0) (stats s2)\<rparr>)"

text \<open>\<open>outcome\<close> is what the task executor of the job's type did: \<open>Inr\<close> its result,
  \<open>Inl\<close> the text of its exception. A job of any other type has no executor and raises.
  \<open>now\<close> is the reading of the clock in the branch that is taken, \<open>now'\<close> a second
  reading for the \<^verbatim>\<open>except\<close> branch when the \<^verbatim>\<open>try\<close> branch itself raises.\<close>

definition worker_outcome ::
  "(string + (string \<times> json) list) \<Rightarrow> datetime \<Rightarrow> datetime \<Rightarrow> Service \<Rightarrow> Service" where
  "worker_outcome outcome now now' s =
     (case worker s of
        Running r \<Rightarrow>
          (let kind = job_type (objects s ! r);
               oc = (if kind = ''video'' \<or> kind = ''audio'' \<or> kind = ''translation''
                     then outcome else Inl (''Unknown job type: '' @ kind));
               s1 = (case oc of
                       Inr res \<Rightarrow> job_succeeded res now now' r s
                     | Inl msg \<Rightarrow> job_failed msg now r s)
           in s1\<lparr>worker := Finishing r\<rparr>)
      | _ \<Rightarrow> s)"

text \<open>The \<^verbatim>\<open>finally\<close> branch.\<close>

definition process_job_finally :: "nat \<Rightarrow> Service \<Rightarrow> Service" where
  "process_job_finally r s =
     (let jid = job_id (objects s ! r);
          s1 = s\<lparr>active_jobs := dict_del (active_jobs s) jid,
                  finished_jobs := dict_set (finished_jobs s) jid r\<rparr>;
          s2 = update_batch_status r s1;
          s3 = s2\<lparr>stats := (stats s2)\<lparr>queue_size := int (length (job_queue s2)),
                                        active_workers := int (length (active_jobs s2))\<rparr>\<rparr>
      in save_persistent_data s3)"

definition worker_finally :: "Service \<Rightarrow> Service" where
  "worker_finally s =
     (case worker s of
        Finishing r \<Rightarrow> (process_job_finally r s)\<lparr>worker := Idle\<rparr>
      | _ \<Rightarrow> s)"

subsection \<open>Cancelling and cleaning up\<close>

text \<open>The body of the loop of \<^verbatim>\<open>cancel_batch\<close>: the test of the job's status and the write
  that follows it. \<open>cancel_write\<close> is the write alone.\<close>

definition cancel_write :: "nat \<Rightarrow> BatchJob list \<Rightarrow> BatchJob list" where
  "cancel_write r objs = objs[r := (objs ! r)\<lparr>status := CANCELLED\<rparr>]"

definition cancel_job :: "nat \<Rightarrow> BatchJob list \<Rightarrow> BatchJob list" where
  "cancel_job r objs = (if status (objs ! r) = PENDING then cancel_write r objs else objs)"

text \<open>The end of \<^verbatim>\<open>cancel_batch\<close>: the status of the batch is set and the table is saved.\<close>

definition mark_cancelled :: "string \<Rightarrow> Service \<Rightarrow> Service" where
  "mark_cancelled bid s =
     (case map_of (batch_requests s) bid of
        None \<Rightarrow> s
      | Some b \<Rightarrow>
          save_persistent_data
            (s\<lparr>batch_requests :=
                 dict_set (batch_requests s) bid (b\<lparr>batch_status := CANCELLED\<rparr>)\<rparr>))"

text \<open>The whole call, when the worker does not run in between.\<close>

definition cancel_batch :: "string \<Rightarrow> Service \<Rightarrow> bool \<times> Service" where
  "cancel_batch bid s =
     (case map_of (batch_requests s) bid of
        None \<Rightarrow> (False, s)
      | Some b \<Rightarrow>
          (let s1 = s\<lparr>objects := fold cancel_job (jobs b) (objects s)\<rparr>;
               s2 = s1\<lparr>batch_requests :=
                         dict_set (batch_requests s1) bid (b\<lparr>batch_status := CANCELLED\<rparr>)\<rparr>
           in (True, save_persistent_data s2)))"

definition is_terminal_status :: "JobStatus \<Rightarrow> bool" where
  "is_terminal_status st = (st = COMPLETED \<or> st = FAILED \<or> st = CANCELLED)"

definition old_batch :: "datetime \<Rightarrow> nat BatchRequest \<Rightarrow> bool" where
  "old_batch cutoff_date b =
     (is_terminal_status (batch_status b) \<and> dt_lt (batch_created_at b) cutoff_date)"

definition old_job :: "datetime \<Rightarrow> BatchJob \<Rightarrow> bool" where
  "old_job cutoff_time job =
     (case completed_at job of None \<Rightarrow> False | Some t \<Rightarrow> dt_lt t cutoff_time)"

text \<open>
  \<^verbatim>\<open>cleanup_old_batches\<close> has no \<^verbatim>\<open>return\<close>: the call gives \<^verbatim>\<open>None\<close>, written \<open>None\<close> in
  the first component, and the count of removed batches goes to the log only. \<open>now\<close> and
  \<open>now'\<close> are the two readings of the clock. When a cutoff leaves the range of
  \<^verbatim>\<open>datetime\<close> the source logs the exception and stops where it is. This is the whole
  call, when the worker does not run in between.
\<close>

definition cleanup_old_batches :: "int \<Rightarrow> datetime \<Rightarrow> datetime \<Rightarrow> Service \<Rightarrow> int option \<times> Service" where
  "cleanup_old_batches days_old now now' s =
     (case minus_days now days_old of
        None \<Rightarrow> (None, s)
      | Some cutoff_date \<Rightarrow>
          (let to_remove = map fst (filter (\<lambda>kv. old_batch cutoff_date (snd kv)) (batch_requests s));
               s1 = s\<lparr>batch_requests := fold (\<lambda>bid d. dict_del d bid) to_remove (batch_requests s)\<rparr>
           in case minus_days now' days_old of
                None \<Rightarrow> (None, s1)
              | Some cutoff_time \<Rightarrow>
                  (let old_jobs = map fst (filter (\<lambda>kv. old_job cutoff_time (objects s1 ! snd kv))
                                                  (finished_jobs s1));
                       s2 = s1\<lparr>finished_jobs :=
                                 fold (\<lambda>jid d. dict_del d jid) old_jobs (finished_jobs s1)\<rparr>
                   in (None, save_persistent_data s2))))"

subsection \<open>A fresh service and what it can reach\<close>

definition empty_service :: "int \<Rightarrow> Service" where
  "empty_service workers =
     \<lparr>max_workers = workers, objects = [], job_queue = [], active_jobs = [], finished_jobs = [],
      batch_requests = [],
      stats = \<lparr>total_jobs_processed = 0, total_jobs_failed = 0, average_processing_time = 0.0,
               queue_size = 0, active_workers = 0\<rparr>,
      worker = Idle, batch_file = None\<rparr>"

text \<open>
  The events of the engine are the five steps of the worker and the writes of the API
  thread, one by one, because the worker may run between any two of them:
  \<^item> \<open>ApiPut\<close>: one round of the loop of a submission (a job object is allocated and put on
    the queue, before its batch is in the table);
  \<^item> \<open>ApiStore\<close>: the end of a submission (the batch is stored, with the job objects that
    the call has allocated);
  \<^item> \<open>ApiCancelJob\<close>: the write \<^verbatim>\<open>job.status = JobStatus.CANCELLED\<close> in \<^verbatim>\<open>cancel_batch\<close>; the
    test before it was made on an earlier state, so the event itself tests nothing;
  \<^item> \<open>ApiCancelBatch\<close>: the end of \<^verbatim>\<open>cancel_batch\<close>;
  \<^item> \<open>ApiDelete\<close>, \<open>ApiForget\<close>, \<open>ApiSave\<close>: the deletions of \<^verbatim>\<open>cleanup_old_batches\<close> from the
    table and from \<^verbatim>\<open>self.completed_jobs\<close>, and its final save; the choice of what to
    delete was made on earlier states.

  The calls of the API do not interrupt each other, and a call that the worker does not
  interrupt is a run of these events (\<open>reachable_create\<close>, \<open>reachable_cancel\<close> and
  \<open>reachable_cleanup\<close> below). Within one event the state is read and written at once. That
  loses nothing for the job objects, the queue and the table: the writes of the other
  thread that can fall inside such an event set a job or a batch to \<open>CANCELLED\<close>, put a
  new job on the queue or add and remove other entries of the table, and each of them
  leaves the same state as when it comes just before or just after the event. For the
  statistics and the saved file, which both threads write, the interleavings inside an
  event are not modelled.
\<close>

datatype event =
    ApiPut string string nat "(string \<times> json) list" JobPriority datetime
  | ApiStore string string "nat list" datetime real
  | ApiCancelJob nat
  | ApiCancelBatch string
  | ApiDelete string
  | ApiForget string
  | ApiSave
  | WorkerGet
  | WorkerTest
  | WorkerStart datetime
  | WorkerOutcome "string + (string \<times> json) list" datetime datetime
  | WorkerFinally

fun step :: "event \<Rightarrow> Service \<Rightarrow> Service" where
  "step (ApiPut uuid kind i request prio now) s = snd (submit_job uuid kind i request prio now s)"
| "step (ApiStore uuid nm js now est) s = store_batch uuid nm js now est s"
| "step (ApiCancelJob r) s = s\<lparr>objects := cancel_write r (objects s)\<rparr>"
| "step (ApiCancelBatch bid) s = mark_cancelled bid s"
| "step (ApiDelete bid) s = s\<lparr>batch_requests := dict_del (batch_requests s) bid\<rparr>"
| "step (ApiForget jid) s = s\<lparr>finished_jobs := dict_del (finished_jobs s) jid\<rparr>"
| "step ApiSave s = save_persistent_data s"
| "step WorkerGet s = worker_get s"
| "step WorkerTest s = worker_test s"
| "step (WorkerStart now) s = worker_start now s"
| "step (WorkerOutcome outcome now now') s = worker_outcome outcome now now' s"
| "step WorkerFinally s = worker_finally s"

text \<open>\<open>run evs s\<close> performs the events in order.\<close>

definition run :: "event list \<Rightarrow> Service \<Rightarrow> Service" where
  "run evs s = fold step evs s"

text \<open>The jobs of a batch that is stored are job objects that exist; the other events
  carry whatever the callers, the clock and the executors give.\<close>

fun event_ok :: "Service \<Rightarrow> event \<Rightarrow> bool" where
  "event_ok s (ApiStore uuid nm js now est) = list_all (\<lambda>r. r < length (objects s)) js"
| "event_ok s _ = True"

text \<open>A state is reachable when some run of such events from a fresh service ends in it.\<close>

inductive reachable :: "Service \<Rightarrow> bool" where
  fresh: "reachable (empty_service workers)"
| after: "reachable s \<Longrightarrow> event_ok s ev \<Longrightarrow> reachable (step ev s)"

subsection \<open>Sample data for the concrete instances below\<close>

definition sample_uuid :: string where
  "sample_uuid = ''123e4567-e89b-42d3-a456-426614174000''"

definition sample_time :: datetime where
  "sample_time = \<lparr>year = 2024, month = 1, day = 15, hour = 10, minute = 0, second = 0,
                   microsecond = 0\<rparr>"

text \<open>Four audio jobs of one batch, all of priority \<open>MEDIUM\<close>, as \<^verbatim>\<open>create_audio_batch\<close> makes
  them.\<close>

definition four_jobs :: "BatchJob list" where
  "four_jobs =
     [new_job sample_uuid ''audio'' 0 [] MEDIUM sample_time,
      new_job sample_uuid ''audio'' 1 [] MEDIUM sample_time,
      new_job sample_uuid ''audio'' 2 [] MEDIUM sample_time,
      new_job sample_uuid ''audio'' 3 [] MEDIUM sample_time]"

text \<open>The job objects that the loop of a submission allocates.\<close>

definition new_jobs ::
  "string \<Rightarrow> string \<Rightarrow> JobPriority \<Rightarrow> (nat \<Rightarrow> datetime) \<Rightarrow> nat \<Rightarrow> (string \<times> json) list list
     \<Rightarrow> BatchJob list" where
  "new_jobs uuid kind prio clock i requests =
     map (\<lambda>kr. new_job uuid kind (fst kr) (snd kr) prio (clock (fst kr)))
         (zip [i..<i + length requests] requests)"

text \<open>Two jobs of one batch, the first completed and the second cancelled while the first
  was running: the state in which the worker recounts the batch after the first job.\<close>

definition half_cancelled_jobs :: "BatchJob list" where
  "half_cancelled_jobs =
     [(new_job sample_uuid ''audio'' 0 [] MEDIUM sample_time)
        \<lparr>status := COMPLETED, started_at := Some sample_time, completed_at := Some sample_time,
         progress := 100, result := Some []\<rparr>,
      (new_job sample_uuid ''audio'' 1 [] MEDIUM sample_time)\<lparr>status := CANCELLED\<rparr>]"

definition half_cancelled_batch :: "nat BatchRequest" where
  "half_cancelled_batch =
     \<lparr>batch_id = sample_uuid, name = ''Audio Batch 20240115_100000'', jobs = [0, 1],
      batch_created_at = sample_time, total_jobs = 2, completed_jobs = 0, failed_jobs = 0,
      batch_status = CANCELLED, estimated_duration = Some 0, actual_duration = None\<rparr>"

definition half_cancelled_service :: Service where
  "half_cancelled_service =
     (empty_service 4)
       \<lparr>objects := half_cancelled_jobs, batch_requests := [(sample_uuid, half_cancelled_batch)],
        worker := Finishing 0\<rparr>"

text \<open>Two jobs of one batch, the first completed and the second failed for good.\<close>

definition mixed_jobs :: "BatchJob list" where
  "mixed_jobs =
     [(new_job sample_uuid ''audio'' 0 [] MEDIUM sample_time)
        \<lparr>status := COMPLETED, started_at := Some sample_time, completed_at := Some sample_time,
         progress := 100, result := Some []\<rparr>,
      (new_job sample_uuid ''audio'' 1 [] LOW sample_time)
        \<lparr>status := FAILED, started_at := Some sample_time, completed_at := Some sample_time,
         error := Some ''Audio processing failed'', retry_count := 3\<rparr>]"

definition mixed_batch :: "nat BatchRequest" where
  "mixed_batch =
     \<lparr>batch_id = sample_uuid, name = ''Audio Batch 20240115_100000'', jobs = [0, 1],
      batch_created_at = sample_time, total_jobs = 2, completed_jobs = 1, failed_jobs = 0,
      batch_status = PENDING, estimated_duration = Some 0, actual_duration = None\<rparr>"

definition mixed_service :: Service where
  "mixed_service =
     (empty_service 4)
       \<lparr>objects := mixed_jobs, batch_requests := [(sample_uuid, mixed_batch)],
        worker := Finishing 1\<rparr>"

text \<open>A service with one batch of three audio jobs: job 0 is being processed, jobs 1 and 2
  wait in the queue.\<close>

definition three_jobs :: "BatchJob list" where
  "three_jobs =
     [(new_job sample_uuid ''audio'' 0 [] MEDIUM sample_time)
        \<lparr>status := PROCESSING, started_at := Some sample_time\<rparr>,
      new_job sample_uuid ''audio'' 1 [] MEDIUM sample_time,
      new_job sample_uuid ''audio'' 2 [] MEDIUM sample_time]"

definition three_job_batch :: "nat BatchRequest" where
  "three_job_batch =
     \<lparr>batch_id = sample_uuid, name = ''Audio Batch 20240115_100000'', jobs = [0, 1, 2],
      batch_created_at = sample_time, total_jobs = 3, completed_jobs = 0, failed_jobs = 0,
      batch_status = PENDING, estimated_duration = Some 0, actual_duration = None\<rparr>"

definition three_job_service :: Service where
  "three_job_service =
     (empty_service 4)
       \<lparr>objects := three_jobs, job_queue := [1, 2],
        active_jobs := [(job_id (three_jobs ! 0), 0)],
        batch_requests := [(sample_uuid, three_job_batch)], worker := Running 0\<rparr>"

text \<open>A table with a completed batch created on 5 January 2024 and one created on
  14 January 2024; \<open>sample_time\<close> is 15 January 2024.\<close>

definition old_batch_entry :: "string \<times> nat BatchRequest" where
  "old_batch_entry =
     (''old'', \<lparr>batch_id = ''old'', name = ''first'', jobs = [],
               batch_created_at = sample_time\<lparr>day := 5\<rparr>, total_jobs = 0, completed_jobs = 0,
               failed_jobs = 0, batch_status = COMPLETED, estimated_duration = Some 0,
               actual_duration = None\<rparr>)"

definition recent_batch_entry :: "string \<times> nat BatchRequest" where
  "recent_batch_entry =
     (''recent'', \<lparr>batch_id = ''recent'', name = ''second'', jobs = [],
                  batch_created_at = sample_time\<lparr>day := 14\<rparr>, total_jobs = 0,
                  completed_jobs = 0, failed_jobs = 0, batch_status = COMPLETED,
                  estimated_duration = Some 0, actual_duration = None\<rparr>)"

definition two_batch_service :: Service where
  "two_batch_service = (empty_service 4)\<lparr>batch_requests := [old_batch_entry, recent_batch_entry]\<rparr>"

text \<open>One audio job is submitted; \<open>one_job_service\<close> is the service after the call.\<close>

definition one_job_service :: Service where
  "one_job_service =
     snd (create_audio_batch sample_uuid (\<lambda>k. sample_time) 0.25 [[(''text'', JStr ''hello'')]]
            None MEDIUM (empty_service 4))"

text \<open>A run of the service: the batch of \<open>one_job_service\<close> is cancelled before the worker
  takes the job.\<close>

definition cancelled_run :: Service where
  "cancelled_run = snd (cancel_batch sample_uuid one_job_service)"

text \<open>A run of the service: the worker takes the job of \<open>one_job_service\<close>, runs it with
  success and recounts the batch.\<close>

definition completed_run :: Service where
  "completed_run =
     run [WorkerGet, WorkerTest, WorkerStart sample_time,
          WorkerOutcome (Inr [(''audio_path'', JStr ''a.mp3'')]) sample_time sample_time,
          WorkerFinally]
       one_job_service"

text \<open>
  A run of the service in which the two threads interleave: the worker pops the job of
  \<open>one_job_service\<close> and tests its status (\<open>race_tested\<close>), then the API thread serves
  \<^verbatim>\<open>cancel_batch\<close> for the batch (\<open>race_cancelled\<close>), then the worker enters
  \<^verbatim>\<open>_process_job\<close> (\<open>race_started\<close>).
\<close>

definition race_tested :: Service where
  "race_tested = worker_test (worker_get one_job_service)"

definition race_cancelled :: Service where
  "race_cancelled = snd (cancel_batch sample_uuid race_tested)"

definition race_started :: Service where
  "race_started = worker_start sample_time race_cancelled"

text \<open>
  A run of the service in which the worker is faster than the submission: the first round
  of the loop of \<^verbatim>\<open>create_audio_batch\<close> puts the only job on the queue, the worker takes
  the job, runs it with success and recounts, and only then the call stores the batch.
\<close>

definition early_worker_run :: Service where
  "early_worker_run =
     run [ApiPut sample_uuid ''audio'' 0 [(''text'', JStr ''hello'')] MEDIUM sample_time,
          WorkerGet, WorkerTest, WorkerStart sample_time,
          WorkerOutcome (Inr [(''audio_path'', JStr ''a.mp3'')]) sample_time sample_time,
          WorkerFinally,
          ApiStore sample_uuid ''Audio Batch 20240115_100000'' [0] sample_time 0.25]
       (empty_service 4)"

subsection \<open>Invariants of the reachable states\<close>

text \<open>The queue holds each waiting job object once, and a job object on the queue is
  \<open>PENDING\<close> or \<open>CANCELLED\<close>.\<close>

definition queue_ok :: "Service \<Rightarrow> bool" where
  "queue_ok s =
     (distinct (job_queue s) \<and>
      (\<forall>r \<in> set (job_queue s). r < length (objects s) \<and>
         (status (objects s ! r) = PENDING \<or> status (objects s ! r) = CANCELLED)))"

text \<open>The worker holds a job from the \<^verbatim>\<open>get\<close> to the end of the \<^verbatim>\<open>try\<close> or \<^verbatim>\<open>except\<close>
  branch: these are the steps after which it may still write the job's status.\<close>

definition holds :: "Service \<Rightarrow> nat \<Rightarrow> bool" where
  "holds s r = (worker s = Popped r \<or> worker s = Accepted r \<or> worker s = Running r)"

text \<open>The job the worker holds is off the queue and neither \<open>COMPLETED\<close> nor \<open>FAILED\<close>.\<close>

definition worker_ok :: "Service \<Rightarrow> bool" where
  "worker_ok s =
     (\<forall>r. holds s r \<longrightarrow>
        r < length (objects s) \<and> r \<notin> set (job_queue s) \<and>
        status (objects s ! r) \<noteq> COMPLETED \<and> status (objects s ! r) \<noteq> FAILED)"

text \<open>A job object is retired when it is terminal, off the queue and not held by the
  worker: the worker will not touch it again.\<close>

definition retired :: "Service \<Rightarrow> nat \<Rightarrow> bool" where
  "retired s r =
     (r < length (objects s) \<and> r \<notin> set (job_queue s) \<and> \<not> holds s r \<and>
      is_terminal_status (status (objects s ! r)))"

text \<open>The counters of a batch never run ahead of its retired jobs.\<close>

definition batch_ok :: "Service \<Rightarrow> nat BatchRequest \<Rightarrow> bool" where
  "batch_ok s b =
     (total_jobs b = int (length (jobs b)) \<and>
      (\<forall>r \<in> set (jobs b). r < length (objects s)) \<and>
      completed_jobs b + failed_jobs b \<le> int (length (filter (retired s) (jobs b))))"

definition table_ok :: "Service \<Rightarrow> bool" where
  "table_ok s = (\<forall>kv \<in> set (batch_requests s). batch_ok s (snd kv))"

definition service_inv :: "Service \<Rightarrow> bool" where
  "service_inv s = (queue_ok s \<and> worker_ok s \<and> table_ok s)"

section \<open>Properties\<close>

subsection \<open>Strings and dictionaries\<close>

lemma split_char_nonempty: "split_char c s \<noteq> []"
  by (induction s) (auto split: list.splits)

lemma hd_split_char: "c \<notin> set p \<Longrightarrow> hd (split_char c (p @ c # rest)) = p"
  by (induction p) (auto simp: split_char_nonempty split: list.splits)

lemma list_all_zip_upt:
  "length s = n \<Longrightarrow> list_all P (zip [0..<n] s) \<Longrightarrow> i < n \<Longrightarrow> P (i, s ! i)"
  by (simp add: list_all_length)

lemma uuid_no_underscore:
  assumes "is_uuid_str s"
  shows "CHR ''_'' \<notin> set s"
proof
  assume "CHR ''_'' \<in> set s"
  then obtain i where i: "i < length s" "s ! i = CHR ''_''"
    by (auto simp: in_set_conv_nth)
  note u = assms[unfolded is_uuid_str_def]
  have len: "length s = 36" using u by (rule conjunct1)
  have "(\<lambda>(i, c). if i = 8 \<or> i = 13 \<or> i = 18 \<or> i = 23 then c = CHR ''-''
                          else c \<in> set ''0123456789abcdef'') (i, s ! i)"
    by (rule list_all_zip_upt[OF len conjunct2[OF u]]) (use i(1) len in simp)
  then show False using i(2) by (auto split: if_splits)
qed

lemma map_of_dict_set: "map_of (dict_set d k v) k' = (if k' = k then Some v else map_of d k')"
  by (induction d k v rule: dict_set.induct) auto

subsection \<open>The loop of a submission\<close>

lemma upt_shift: "[i..<Suc (i + n)] = i # [Suc i..<Suc (i + n)]"
  by (simp add: upt_conv_Cons del: upt_Suc)

lemma new_jobs_Nil: "new_jobs uuid kind prio clock i [] = []"
  by (simp add: new_jobs_def)

lemma new_jobs_Cons: "new_jobs uuid kind prio clock i (rq # rqs) =
    new_job uuid kind i rq prio (clock i) # new_jobs uuid kind prio clock (Suc i) rqs"
  by (simp add: new_jobs_def upt_shift del: upt_Suc)

lemma length_new_jobs: "length (new_jobs uuid kind prio clock i requests) = length requests"
  by (simp add: new_jobs_def)

lemma objects_queue_put: "objects (queue_put r s) = objects s"
  by (simp add: queue_put_def)

lemma add_jobs_objects:
  "objects (snd (add_jobs uuid kind prio clock i requests js s)) =
     objects s @ new_jobs uuid kind prio clock i requests"
  by (induction requests arbitrary: i js s)
     (simp_all add: new_jobs_Nil new_jobs_Cons submit_job_def Let_def objects_queue_put)

lemma add_jobs_refs:
  "fst (add_jobs uuid kind prio clock i requests js s) =
     js @ [length (objects s)..<length (objects s) + length requests]"
  by (induction requests arbitrary: i js s)
     (simp_all add: submit_job_def Let_def objects_queue_put upt_shift del: upt_Suc)

lemma new_jobs_id:
  "k < length requests \<Longrightarrow> CHR ''_'' \<notin> set uuid \<Longrightarrow>
   hd (split_char CHR ''_'' (job_id (new_jobs uuid kind prio clock i requests ! k))) = uuid"
  by (simp add: new_jobs_def new_job_def hd_split_char)

lemma create_batch_ids:
  assumes "CHR ''_'' \<notin> set uuid"
    and "create_batch kind title uuid clock est requests nm prio s = (bid, s')"
  shows "\<exists>b. map_of (batch_requests s') bid = Some b \<and> batch_id b = bid \<and> bid = uuid \<and>
             length (jobs b) = length requests \<and>
             (\<forall>r \<in> set (jobs b). hd (split_char CHR ''_'' (job_id (objects s' ! r))) = bid)"
proof -
  obtain title' k where nk: "(case nm of
        None \<Rightarrow> (title @ '' Batch '' @ strftime_name (clock 0), 1)
      | Some n \<Rightarrow> if n = [] then (title @ '' Batch '' @ strftime_name (clock 0), 1)
                  else (n, 0)) = (title', k::nat)"
    by (cases "(case nm of
        None \<Rightarrow> (title @ '' Batch '' @ strftime_name (clock 0), 1)
      | Some n \<Rightarrow> if n = [] then (title @ '' Batch '' @ strftime_name (clock 0), 1)
                  else (n, 0::nat))") auto
  let ?clock = "\<lambda>i. clock (k + i)"
  obtain js s1 where a: "add_jobs uuid kind prio ?clock 0 requests [] s = (js, s1)"
    by (cases "add_jobs uuid kind prio ?clock 0 requests [] s")
  have js: "js = [length (objects s)..<length (objects s) + length requests]"
    using add_jobs_refs[of uuid kind prio ?clock 0 requests "[]" s] a by simp
  have ob: "objects s1 = objects s @ new_jobs uuid kind prio ?clock 0 requests"
    using add_jobs_objects[of uuid kind prio ?clock 0 requests "[]" s] a by simp
  have "hd (split_char CHR ''_'' (job_id (objects s1 ! r))) = uuid" if "r \<in> set js" for r
  proof -
    from that js obtain j where j: "r = length (objects s) + j" "j < length requests"
      by (auto simp: nat_le_iff_add)
    show ?thesis using j assms(1) by (simp add: ob nth_append new_jobs_id)
  qed
  then show ?thesis
    using assms(2) a js nk
    by (auto simp: create_batch_def store_batch_def Let_def save_persistent_data_def
          map_of_dict_set)
qed

subsection \<open>The order of the queue\<close>

text \<open>
  C2, as the code has it. \<^verbatim>\<open>BatchJob.__lt__\<close> compares the priority values and nothing
  else: it is irreflexive and transitive, it orders \<open>a\<close> before \<open>b\<close> exactly when the
  priority value of \<open>a\<close> is the smaller one, and two jobs of one priority are ordered
  neither way. No enqueue sequence number takes part.
\<close>

theorem BatchJob_lt_priority_only:
  "\<not> BatchJob_lt a a \<and>
   (BatchJob_lt a b \<and> BatchJob_lt b c \<longrightarrow> BatchJob_lt a c) \<and>
   (BatchJob_lt a b \<longleftrightarrow> priority_value (priority a) < priority_value (priority b)) \<and>
   (priority a = priority b \<longrightarrow> \<not> BatchJob_lt a b \<and> \<not> BatchJob_lt b a)"
  by (auto simp: BatchJob_lt_def)

theorem BatchJob_lt_priority_only_witness:
  "BatchJob_lt (new_job sample_uuid ''video'' 0 [] URGENT sample_time)
               (new_job sample_uuid ''video'' 1 [] HIGH sample_time) \<and>
   BatchJob_lt (new_job sample_uuid ''video'' 1 [] HIGH sample_time)
               (new_job sample_uuid ''video'' 2 [] LOW sample_time) \<and>
   BatchJob_lt (new_job sample_uuid ''video'' 0 [] URGENT sample_time)
               (new_job sample_uuid ''video'' 2 [] LOW sample_time) \<and>
   priority (new_job sample_uuid ''video'' 1 [] HIGH sample_time) =
     priority (new_job sample_uuid ''video'' 3 [] HIGH sample_time) \<and>
   \<not> BatchJob_lt (new_job sample_uuid ''video'' 1 [] HIGH sample_time)
                 (new_job sample_uuid ''video'' 3 [] HIGH sample_time)"
  using BatchJob_lt_priority_only
          [of "new_job sample_uuid ''video'' 0 [] URGENT sample_time"
              "new_job sample_uuid ''video'' 1 [] HIGH sample_time"
              "new_job sample_uuid ''video'' 2 [] LOW sample_time"]
        BatchJob_lt_priority_only
          [of "new_job sample_uuid ''video'' 1 [] HIGH sample_time"
              "new_job sample_uuid ''video'' 3 [] HIGH sample_time"]
  by (simp add: new_job_def BatchJob_lt_def)

lemma four_jobs_unordered: "a < 4 \<Longrightarrow> b < 4 \<Longrightarrow> job_lt four_jobs a b = False"
  by (auto simp: job_lt_def BatchJob_lt_def four_jobs_def new_job_def nth_Cons split: nat.splits)

text \<open>
  C2 as stated fails: jobs 1 and 2 of \<open>four_jobs\<close> are distinct and share a priority, the
  order relates them neither way, and after the four jobs are put on the queue in the
  order 0, 1, 2, 3 the queue gives job 0 and then job 2, ahead of job 1 that was put
  before it.
\<close>

theorem equal_priority_not_fifo:
  "four_jobs ! 1 \<noteq> four_jobs ! 2 \<and>
   priority (four_jobs ! 1) = priority (four_jobs ! 2) \<and>
   \<not> BatchJob_lt (four_jobs ! 1) (four_jobs ! 2) \<and>
   \<not> BatchJob_lt (four_jobs ! 2) (four_jobs ! 1) \<and>
   heappush (job_lt four_jobs) (heappush (job_lt four_jobs)
     (heappush (job_lt four_jobs) (heappush (job_lt four_jobs) [] 0) 1) 2) 3 = [0, 1, 2, 3] \<and>
   heappop (job_lt four_jobs) [0, 1, 2, 3] = Some (0, [2, 1, 3]) \<and>
   heappop (job_lt four_jobs) [2, 1, 3] = Some (2, [1, 3])"
proof -
  have "four_jobs ! 1 \<noteq> four_jobs ! 2"
    by (simp add: four_jobs_def new_job_def str_nat_def digit_char_def numeral_2_eq_2)
  moreover have "priority (four_jobs ! 1) = priority (four_jobs ! 2)"
    by (simp add: four_jobs_def new_job_def)
  moreover have "\<not> BatchJob_lt (four_jobs ! 1) (four_jobs ! 2)"
    and "\<not> BatchJob_lt (four_jobs ! 2) (four_jobs ! 1)"
    by (simp_all add: four_jobs_def new_job_def BatchJob_lt_def)
  moreover have "heappush (job_lt four_jobs) (heappush (job_lt four_jobs)
     (heappush (job_lt four_jobs) (heappush (job_lt four_jobs) [] 0) 1) 2) 3 = [0, 1, 2, 3]"
    by (simp add: heappush_def siftdown_def siftdown_loop.simps four_jobs_unordered)
  moreover have "heappop (job_lt four_jobs) [0, 1, 2, 3] = Some (0, [2, 1, 3])"
    by (simp add: heappop_def siftup_def siftdown_def siftup_loop.simps siftdown_loop.simps
          four_jobs_unordered Let_def)
  moreover have "heappop (job_lt four_jobs) [2, 1, 3] = Some (2, [1, 3])"
    by (simp add: heappop_def siftup_def siftdown_def siftup_loop.simps siftdown_loop.simps
          four_jobs_unordered Let_def)
  ultimately show ?thesis by blast
qed

subsection \<open>Job identifiers\<close>

text \<open>
  C10. Let \<open>uuid\<close> be the text of a version-4 UUID. Each of the three submission
  operations returns \<open>uuid\<close> as the batch id and stores under it a batch with one job per
  request, and for every job of that batch the part of the job's id before the first
  underscore, which is what \<^verbatim>\<open>_update_batch_status\<close> looks up, is the batch id.
\<close>

theorem job_id_prefix_is_batch_id:
  assumes "is_uuid_str uuid"
    and "create_video_batch uuid clock est requests nm prio s = (bid, s') \<or>
         create_audio_batch uuid clock est requests nm prio s = (bid, s') \<or>
         create_translation_batch uuid clock est requests nm prio s = (bid, s')"
  shows "\<exists>b. map_of (batch_requests s') bid = Some b \<and> batch_id b = bid \<and> bid = uuid \<and>
             length (jobs b) = length requests \<and>
             (\<forall>r \<in> set (jobs b). hd (split_char CHR ''_'' (job_id (objects s' ! r))) = bid)"
  using assms(2) create_batch_ids[OF uuid_no_underscore[OF assms(1)]]
  unfolding create_video_batch_def create_audio_batch_def create_translation_batch_def
  by blast

theorem job_id_prefix_is_batch_id_witness:
  "is_uuid_str sample_uuid \<and>
   (\<exists>b. map_of (batch_requests (snd (create_audio_batch sample_uuid (\<lambda>k. sample_time) 1
                 [[(''text'', JStr ''hello'')], [(''text'', JStr ''world'')]] None MEDIUM
                 (empty_service 4)))) sample_uuid = Some b \<and>
        batch_id b = sample_uuid \<and> length (jobs b) = 2 \<and>
        (\<forall>r \<in> set (jobs b).
           hd (split_char CHR ''_''
                 (job_id (objects (snd (create_audio_batch sample_uuid (\<lambda>k. sample_time) 1
                    [[(''text'', JStr ''hello'')], [(''text'', JStr ''world'')]] None MEDIUM
                    (empty_service 4))) ! r))) = sample_uuid))"
proof -
  have h: "is_uuid_str sample_uuid"
    by code_simp
  obtain bid s' where c: "create_audio_batch sample_uuid (\<lambda>k. sample_time) 1
      [[(''text'', JStr ''hello'')], [(''text'', JStr ''world'')]] None MEDIUM (empty_service 4)
      = (bid, s')"
    by (cases "create_audio_batch sample_uuid (\<lambda>k. sample_time) 1
      [[(''text'', JStr ''hello'')], [(''text'', JStr ''world'')]] None MEDIUM (empty_service 4)")
  from job_id_prefix_is_batch_id[OF h disjI2[OF disjI1[OF c]]] c h show ?thesis
    by auto
qed

subsection \<open>Cancelling a batch\<close>





subsection \<open>Cleaning up\<close>

lemma fold_dict_del: "fold (\<lambda>k d. dict_del d k) ks d = filter (\<lambda>kv. fst kv \<notin> set ks) d"
  by (induction ks arbitrary: d) (auto simp: dict_del_def intro: filter_cong)

lemma remove_selected_keys:
  assumes "distinct (map fst d)"
  shows "fold (\<lambda>k d. dict_del d k) (map fst (filter P d)) d = filter (\<lambda>kv. \<not> P kv) d"
proof -
  have "fst kv \<notin> set (map fst (filter P d)) \<longleftrightarrow> \<not> P kv" if "kv \<in> set d" for kv
  proof
    assume "fst kv \<notin> set (map fst (filter P d))"
    with that show "\<not> P kv" by force
  next
    assume n: "\<not> P kv"
    show "fst kv \<notin> set (map fst (filter P d))"
    proof
      assume "fst kv \<in> set (map fst (filter P d))"
      then obtain kv' where kv': "kv' \<in> set d" "P kv'" "fst kv' = fst kv" by auto
      with that assms have "kv' = kv"
        by (metis eq_key_imp_eq_value prod.collapse)
      with kv' n show False by simp
    qed
  qed
  then show ?thesis
    unfolding fold_dict_del by (intro filter_cong) auto
qed

lemma week_before_sample_time: "minus_days sample_time 7 = Some (sample_time\<lparr>day := 8\<rparr>)"
  by (simp add: minus_days_def sample_time_def toordinal_def ymd2ord_def days_before_year_def
        days_before_month_def DAYS_BEFORE_MONTH_def DAYS_IN_MONTH_def is_leap_def ord2ymd_def
        Let_def)

lemma cleanup_returns_None: "fst (cleanup_old_batches days_old now now' s) = None"
  by (simp add: cleanup_old_batches_def Let_def split: option.splits)

lemma cleanup_objects: "objects (snd (cleanup_old_batches days_old now now' s)) = objects s"
  by (simp add: cleanup_old_batches_def Let_def save_persistent_data_def split: option.splits)

lemma cleanup_table:
  assumes "distinct (map fst (batch_requests s))"
  shows "batch_requests (snd (cleanup_old_batches days_old now now' s)) =
           (case minus_days now days_old of
              None \<Rightarrow> batch_requests s
            | Some cutoff \<Rightarrow> filter (\<lambda>kv. \<not> old_batch cutoff (snd kv)) (batch_requests s))"
  using remove_selected_keys[OF assms]
  by (simp add: cleanup_old_batches_def Let_def save_persistent_data_def split: option.splits)

lemma cleanup_out_of_range:
  "minus_days now days_old = None \<Longrightarrow> snd (cleanup_old_batches days_old now now' s) = s"
  by (simp add: cleanup_old_batches_def)

lemma two_batch_distinct: "distinct (map fst (batch_requests two_batch_service))"
  by (simp add: two_batch_service_def old_batch_entry_def recent_batch_entry_def)

lemma two_batch_kept:
  "filter (\<lambda>kv. \<not> old_batch (sample_time\<lparr>day := 8\<rparr>) (snd kv))
      (batch_requests two_batch_service) = [recent_batch_entry]"
  by (simp add: two_batch_service_def old_batch_entry_def recent_batch_entry_def old_batch_def
        is_terminal_status_def dt_lt_def dt_fields_def sample_time_def)

text \<open>
  C6, as the code has it. In a table whose keys are distinct (it is a dictionary),
  \<^verbatim>\<open>cleanup_old_batches\<close> keeps, in their order and unchanged, exactly the batches that are
  not both terminal (\<open>COMPLETED\<close>, \<open>FAILED\<close> or \<open>CANCELLED\<close>) and created before the cutoff
  \<^verbatim>\<open>now - timedelta(days=days_old)\<close>, it changes no job object, and it returns \<^verbatim>\<open>None\<close>:
  the number of removed batches is only logged. When the cutoff is out of the range of
  \<^verbatim>\<open>datetime\<close> nothing is removed.
\<close>

theorem cleanup_old_batches_effect:
  assumes "distinct (map fst (batch_requests s))"
  shows "fst (cleanup_old_batches days_old now now' s) = None \<and>
         objects (snd (cleanup_old_batches days_old now now' s)) = objects s \<and>
         (\<forall>cutoff. minus_days now days_old = Some cutoff \<longrightarrow>
            batch_requests (snd (cleanup_old_batches days_old now now' s)) =
              filter (\<lambda>kv. \<not> (is_terminal_status (batch_status (snd kv)) \<and>
                                 dt_lt (batch_created_at (snd kv)) cutoff)) (batch_requests s)) \<and>
         (minus_days now days_old = None \<longrightarrow> snd (cleanup_old_batches days_old now now' s) = s)"
  using cleanup_table[OF assms, of days_old now now'] cleanup_out_of_range[of now days_old now' s]
  by (auto simp: cleanup_returns_None cleanup_objects old_batch_def)

theorem cleanup_old_batches_effect_witness:
  "distinct (map fst (batch_requests two_batch_service)) \<and>
   minus_days sample_time 7 = Some (sample_time\<lparr>day := 8\<rparr>) \<and>
   batch_requests (snd (cleanup_old_batches 7 sample_time sample_time two_batch_service)) =
     [recent_batch_entry] \<and>
   fst (cleanup_old_batches 7 sample_time sample_time two_batch_service) = None"
proof -
  from cleanup_old_batches_effect[OF two_batch_distinct, of 7 sample_time sample_time]
       week_before_sample_time two_batch_distinct two_batch_kept
  show ?thesis by (simp add: old_batch_def)
qed

text \<open>
  C6 as stated fails in its last part: cleaning \<open>two_batch_service\<close> with a threshold of
  seven days removes one batch of the two, and the call returns \<^verbatim>\<open>None\<close>, not the number 1.
\<close>

theorem cleanup_returns_no_count:
  "length (batch_requests two_batch_service) = 2 \<and>
   length (batch_requests (snd (cleanup_old_batches 7 sample_time sample_time two_batch_service))) = 1 \<and>
   fst (cleanup_old_batches 7 sample_time sample_time two_batch_service) \<noteq> Some 1"
  using cleanup_table[OF two_batch_distinct, of 7 sample_time sample_time]
        cleanup_returns_None[of 7 sample_time sample_time two_batch_service]
  by (simp add: week_before_sample_time two_batch_kept) (simp add: two_batch_service_def)

subsection \<open>The batch aggregator\<close>

lemma counts_le:
  "count_status objs COMPLETED rs + count_status objs FAILED rs \<le> int (length rs)"
  by (induction rs) (auto simp: count_status_def)

lemma counts_eq_iff:
  "count_status objs COMPLETED rs + count_status objs FAILED rs = int (length rs) \<longleftrightarrow>
   (\<forall>r \<in> set rs. status (objs ! r) = COMPLETED \<or> status (objs ! r) = FAILED)"
proof (induction rs)
  case Nil
  then show ?case by (simp add: count_status_def)
next
  case (Cons x xs)
  show ?case
    using Cons.IH counts_le[of objs xs]
    by (auto simp: count_status_def)
qed

lemma recount_counts:
  "completed_jobs (recount objs b) = count_status objs COMPLETED (jobs b) \<and>
   failed_jobs (recount objs b) = count_status objs FAILED (jobs b) \<and>
   total_jobs (recount objs b) = total_jobs b \<and> jobs (recount objs b) = jobs b"
  by (simp add: recount_def Let_def split: option.splits)

lemma recount_status:
  "batch_status (recount objs b) =
     (if count_status objs COMPLETED (jobs b) + count_status objs FAILED (jobs b) = total_jobs b
      then (if count_status objs FAILED (jobs b) = 0 then COMPLETED
            else if count_status objs COMPLETED (jobs b) = 0 then FAILED else COMPLETED)
      else batch_status b)"
  by (simp add: recount_def Let_def split: option.splits)

lemma update_batch_status_found:
  "map_of (batch_requests s) (hd (split_char CHR ''_'' (job_id (objects s ! r)))) = Some b \<Longrightarrow>
   batch_requests (update_batch_status r s) =
     dict_set (batch_requests s) (hd (split_char CHR ''_'' (job_id (objects s ! r))))
       (recount (objects s) b)"
  by (simp add: update_batch_status_def Let_def)

lemma cancelled_not_counted:
  assumes "x \<in> set rs" "status (objs ! x) = CANCELLED"
  shows "count_status objs COMPLETED rs + count_status objs FAILED rs \<noteq> int (length rs)"
  using assms counts_eq_iff[of objs rs] by auto

lemma sample_job_key:
  "hd (split_char CHR ''_'' (job_id (new_job sample_uuid kind i rq p t))) = sample_uuid"
proof -
  have "CHR ''_'' \<notin> set sample_uuid" by (simp add: sample_uuid_def)
  then show ?thesis by (simp add: new_job_def hd_split_char)
qed

text \<open>
  C4, as the code has it. For the batch that \<^verbatim>\<open>_update_batch_status\<close> finds, with
  \<^verbatim>\<open>total_jobs\<close> the number of its jobs, the aggregator stores the recount: \<^verbatim>\<open>completed_jobs\<close>
  and \<^verbatim>\<open>failed_jobs\<close> are the numbers of jobs that are now \<open>COMPLETED\<close> and \<open>FAILED\<close>. When
  every job is \<open>COMPLETED\<close> or \<open>FAILED\<close> the batch status becomes \<open>COMPLETED\<close> if no job
  failed, \<open>FAILED\<close> if none completed, and \<open>COMPLETED\<close> when both occur. When some job is
  \<open>CANCELLED\<close> the batch status is left as it was.
\<close>

theorem aggregator_status:
  assumes "map_of (batch_requests s) (hd (split_char CHR ''_'' (job_id (objects s ! r)))) = Some b"
    and "total_jobs b = int (length (jobs b))"
  shows "map_of (batch_requests (update_batch_status r s))
           (hd (split_char CHR ''_'' (job_id (objects s ! r)))) = Some (recount (objects s) b) \<and>
         completed_jobs (recount (objects s) b) = count_status (objects s) COMPLETED (jobs b) \<and>
         failed_jobs (recount (objects s) b) = count_status (objects s) FAILED (jobs b) \<and>
         ((\<forall>x \<in> set (jobs b). status (objects s ! x) = COMPLETED \<or> status (objects s ! x) = FAILED)
            \<longrightarrow> batch_status (recount (objects s) b) =
                  (if failed_jobs (recount (objects s) b) = 0 then COMPLETED
                   else if completed_jobs (recount (objects s) b) = 0 then FAILED
                   else COMPLETED)) \<and>
         ((\<exists>x \<in> set (jobs b). status (objects s ! x) = CANCELLED)
            \<longrightarrow> batch_status (recount (objects s) b) = batch_status b)"
proof -
  have 1: "map_of (batch_requests (update_batch_status r s))
           (hd (split_char CHR ''_'' (job_id (objects s ! r)))) = Some (recount (objects s) b)"
    by (simp add: update_batch_status_found[OF assms(1)] map_of_dict_set)
  have 2: "batch_status (recount (objects s) b) =
             (if failed_jobs (recount (objects s) b) = 0 then COMPLETED
              else if completed_jobs (recount (objects s) b) = 0 then FAILED else COMPLETED)"
    if "\<forall>x \<in> set (jobs b). status (objects s ! x) = COMPLETED \<or> status (objects s ! x) = FAILED"
    using that counts_eq_iff[of "objects s" "jobs b"] assms(2)
    by (simp add: recount_status recount_counts)
  have 3: "batch_status (recount (objects s) b) = batch_status b"
    if "\<exists>x \<in> set (jobs b). status (objects s ! x) = CANCELLED"
  proof -
    from that obtain x where "x \<in> set (jobs b)" "status (objects s ! x) = CANCELLED" by blast
    from cancelled_not_counted[OF this] assms(2) show ?thesis
      by (simp add: recount_status)
  qed
  from 1 2 3 show ?thesis by (simp add: recount_counts)
qed

lemma mixed_service_facts:
  "objects mixed_service = mixed_jobs"
  "map_of (batch_requests mixed_service) sample_uuid = Some mixed_batch"
  "jobs mixed_batch = [0, Suc 0]" "total_jobs mixed_batch = 2"
  "status (mixed_jobs ! 0) = COMPLETED" "status (mixed_jobs ! Suc 0) = FAILED"
  by (simp_all add: mixed_service_def mixed_jobs_def mixed_batch_def new_job_def)

lemma mixed_job_key: "hd (split_char CHR ''_'' (job_id (mixed_jobs ! Suc 0))) = sample_uuid"
  by (simp add: mixed_jobs_def sample_job_key)

theorem aggregator_status_witness:
  "map_of (batch_requests mixed_service)
     (hd (split_char CHR ''_'' (job_id (objects mixed_service ! 1)))) = Some mixed_batch \<and>
   total_jobs mixed_batch = int (length (jobs mixed_batch)) \<and>
   map_of (batch_requests (update_batch_status 1 mixed_service)) sample_uuid =
     Some (recount (objects mixed_service) mixed_batch) \<and>
   completed_jobs (recount (objects mixed_service) mixed_batch) = 1 \<and>
   failed_jobs (recount (objects mixed_service) mixed_batch) = 1 \<and>
   batch_status (recount (objects mixed_service) mixed_batch) = COMPLETED"
proof -
  have h1: "map_of (batch_requests mixed_service)
     (hd (split_char CHR ''_'' (job_id (objects mixed_service ! 1)))) = Some mixed_batch"
    by (simp add: mixed_service_facts mixed_job_key)
  have h2: "total_jobs mixed_batch = int (length (jobs mixed_batch))"
    by (simp add: mixed_service_facts)
  have c: "count_status mixed_jobs COMPLETED [0, Suc 0] = 1"
    "count_status mixed_jobs FAILED [0, Suc 0] = 1"
    by (simp_all add: count_status_def mixed_service_facts)
  from aggregator_status[OF h1 h2] h1 h2 show ?thesis
    by (simp add: mixed_service_facts mixed_job_key c)
qed

lemma half_cancelled_facts:
  "objects half_cancelled_service = half_cancelled_jobs"
  "batch_requests half_cancelled_service = [(sample_uuid, half_cancelled_batch)]"
  "jobs half_cancelled_batch = [0, Suc 0]" "total_jobs half_cancelled_batch = 2"
  "batch_status half_cancelled_batch = CANCELLED"
  "status (half_cancelled_jobs ! 0) = COMPLETED"
  "status (half_cancelled_jobs ! Suc 0) = CANCELLED"
  by (simp_all add: half_cancelled_service_def half_cancelled_jobs_def half_cancelled_batch_def
        new_job_def)

lemma half_cancelled_key:
  "hd (split_char CHR ''_'' (job_id (half_cancelled_jobs ! 0))) = sample_uuid"
  by (simp add: half_cancelled_jobs_def sample_job_key)

lemma three_job_facts:
  "objects three_job_service = three_jobs"
  "batch_requests three_job_service = [(sample_uuid, three_job_batch)]"
  "jobs three_job_batch = [0, Suc 0, 2]" "total_jobs three_job_batch = 3"
  "batch_status three_job_batch = PENDING"
  "status (three_jobs ! 0) = PROCESSING"
  "status (three_jobs ! Suc 0) = PENDING" "status (three_jobs ! 2) = PENDING"
  by (simp_all add: three_job_service_def three_jobs_def three_job_batch_def new_job_def)

lemma three_job_key: "hd (split_char CHR ''_'' (job_id (three_jobs ! 0))) = sample_uuid"
  by (simp add: three_jobs_def sample_job_key)

text \<open>
  C4 as stated fails twice. In \<open>half_cancelled_service\<close> both jobs of the batch are terminal
  (one \<open>COMPLETED\<close>, one \<open>CANCELLED\<close>) and no job failed, yet the aggregator leaves the
  batch \<open>CANCELLED\<close> instead of \<open>COMPLETED\<close>. In \<open>three_job_service\<close> two jobs are not
  terminal, and the aggregator leaves the batch \<open>PENDING\<close>: it never writes \<open>PROCESSING\<close>.
\<close>

theorem aggregator_leaves_status:
  "is_terminal_status (status (objects half_cancelled_service ! 0)) \<and>
   is_terminal_status (status (objects half_cancelled_service ! 1)) \<and>
   map_option jobs (map_of (batch_requests half_cancelled_service) sample_uuid) = Some [0, 1] \<and>
   map_option failed_jobs
     (map_of (batch_requests (update_batch_status 0 half_cancelled_service)) sample_uuid) = Some 0 \<and>
   map_option batch_status
     (map_of (batch_requests (update_batch_status 0 half_cancelled_service)) sample_uuid)
     = Some CANCELLED \<and>
   status (objects three_job_service ! 1) = PENDING \<and>
   map_option batch_status
     (map_of (batch_requests (update_batch_status 0 three_job_service)) sample_uuid)
     = Some PENDING"
proof -
  have c: "count_status half_cancelled_jobs COMPLETED [0, Suc 0] = 1"
    "count_status half_cancelled_jobs FAILED [0, Suc 0] = 0"
    by (simp_all add: count_status_def half_cancelled_facts)
  have u: "batch_requests (update_batch_status 0 half_cancelled_service) =
             [(sample_uuid, recount half_cancelled_jobs half_cancelled_batch)]"
    by (simp add: update_batch_status_def half_cancelled_facts half_cancelled_key)
  have d: "count_status three_jobs COMPLETED [0, Suc 0, 2] = 0"
    "count_status three_jobs FAILED [0, Suc 0, 2] = 0"
    by (simp_all add: count_status_def three_job_facts)
  have v: "batch_requests (update_batch_status 0 three_job_service) =
             [(sample_uuid, recount three_jobs three_job_batch)]"
    by (simp add: update_batch_status_def three_job_facts three_job_key)
  show ?thesis
    by (simp add: u v recount_status recount_counts c d half_cancelled_facts three_job_facts
          is_terminal_status_def)
qed

subsection \<open>The queue keeps its items\<close>

text \<open>Both sift loops permute the list, so a put adds one item and a get removes the one it
  returns.\<close>

lemma mset_hole_move:
  assumes "i < length h" "j < length h" "i \<noteq> j"
  shows "mset (h[i := h ! j, j := x]) = mset (h[i := x])"
proof -
  let ?l = "h[i := x]"
  have "mset (?l[i := ?l ! j, j := ?l ! i]) = mset ?l"
    using assms by (intro mset_swap) simp_all
  then show ?thesis using assms by simp
qed

lemma siftdown_loop_mset:
  "pos < length h \<Longrightarrow> siftdown_loop lt h sp pos n = (h', p') \<Longrightarrow>
   length h' = length h \<and> p' < length h \<and> mset (h'[p' := n]) = mset (h[pos := n])"
proof (induction lt h sp pos n arbitrary: h' p' rule: siftdown_loop.induct)
  case (1 lt heap startpos pos newitem)
  show ?case
  proof (cases "pos > startpos \<and> lt newitem (heap ! ((pos - 1) div 2))")
    case True
    then have pp: "(pos - 1) div 2 < pos" by auto
    from True "1.prems"(2)
    have r: "siftdown_loop lt (heap[pos := heap ! ((pos - 1) div 2)]) startpos ((pos - 1) div 2) newitem
              = (h', p')"
      by (subst (asm) siftdown_loop.simps) (simp add: Let_def)
    have l: "(pos - 1) div 2 < length (heap[pos := heap ! ((pos - 1) div 2)])"
      using pp "1.prems"(1) by simp
    from "1.IH"[OF _ refl refl _ l r] True
    have ih: "length h' = length heap \<and> p' < length heap \<and>
              mset (h'[p' := newitem]) =
                mset (heap[pos := heap ! ((pos - 1) div 2), (pos - 1) div 2 := newitem])"
      by simp
    moreover have "mset (heap[pos := heap ! ((pos - 1) div 2), (pos - 1) div 2 := newitem])
                     = mset (heap[pos := newitem])"
      using pp "1.prems"(1) by (intro mset_hole_move) simp_all
    ultimately show ?thesis by simp
  next
    case False
    with "1.prems" show ?thesis
      by (subst (asm) siftdown_loop.simps) (auto simp: Let_def split: if_splits)
  qed
qed

lemma siftdown_mset: "pos < length h \<Longrightarrow> mset (siftdown lt h sp pos) = mset h"
proof -
  assume p: "pos < length h"
  obtain h' p' where r: "siftdown_loop lt h sp pos (h ! pos) = (h', p')"
    by (cases "siftdown_loop lt h sp pos (h ! pos)")
  from siftdown_loop_mset[OF p r] show ?thesis
    by (simp add: siftdown_def r)
qed

lemma siftup_loop_mset:
  "pos < length h \<Longrightarrow> siftup_loop lt h pos = (h', p') \<Longrightarrow>
   length h' = length h \<and> p' < length h \<and> (\<forall>x. mset (h'[p' := x]) = mset (h[pos := x]))"
proof (induction lt h pos arbitrary: h' p' rule: siftup_loop.induct)
  case (1 lt heap pos)
  show ?case
  proof (cases "2 * pos + 1 < length heap")
    case True
    define c where "c = (if 2 * pos + 1 + 1 < length heap \<and>
                            \<not> lt (heap ! (2 * pos + 1)) (heap ! (2 * pos + 1 + 1))
                         then 2 * pos + 1 + 1 else 2 * pos + 1)"
    have c: "c < length heap" "c \<noteq> pos" using True by (auto simp: c_def)
    from True "1.prems"(2) have r: "siftup_loop lt (heap[pos := heap ! c]) c = (h', p')"
      by (subst (asm) siftup_loop.simps) (auto simp: Let_def c_def)
    have l: "c < length (heap[pos := heap ! c])" using c by simp
    from "1.IH"[OF refl refl _ refl _ l r] True
    have ih: "length h' = length heap \<and> p' < length heap \<and>
              (\<forall>x. mset (h'[p' := x]) = mset (heap[pos := heap ! c, c := x]))"
      by (simp add: c_def)
    moreover have "mset (heap[pos := heap ! c, c := x]) = mset (heap[pos := x])" for x
      using c "1.prems"(1) by (intro mset_hole_move) simp_all
    ultimately show ?thesis by simp
  next
    case False
    with "1.prems" show ?thesis
      by (subst (asm) siftup_loop.simps) (auto simp: Let_def)
  qed
qed

lemma siftup_mset: "pos < length h \<Longrightarrow> mset (siftup lt h pos) = mset h"
proof -
  assume p: "pos < length h"
  obtain h' p' where r: "siftup_loop lt h pos = (h', p')"
    by (cases "siftup_loop lt h pos")
  from siftup_loop_mset[OF p r]
  have f: "length h' = length h" "p' < length h" "mset (h'[p' := h ! pos]) = mset (h[pos := h ! pos])"
    by auto
  have "mset (siftdown lt (h'[p' := h ! pos]) pos p') = mset (h'[p' := h ! pos])"
    using f by (intro siftdown_mset) simp
  then show ?thesis using f by (simp add: siftup_def r)
qed

lemma heappush_mset: "mset (heappush lt h x) = add_mset x (mset h)"
  by (simp add: heappush_def siftdown_mset)

lemma heappop_None: "heappop lt h = None \<longleftrightarrow> h = []"
  by (simp add: heappop_def Let_def)

lemma heappop_mset: "heappop lt h = Some (x, h') \<Longrightarrow> mset h = add_mset x (mset h')"
proof -
  assume a: "heappop lt h = Some (x, h')"
  then have "h \<noteq> []" by (auto simp: heappop_def)
  then obtain bl l where h: "h = bl @ [l]" by (metis rev_exhaust)
  show ?thesis
  proof (cases bl)
    case Nil
    with a h have "x = l" "h' = []" by (auto simp: heappop_def Let_def)
    with Nil h show ?thesis by simp
  next
    case (Cons b bs)
    with a h have x: "x = b" and h': "h' = siftup lt (l # bs) 0"
      by (auto simp: heappop_def Let_def)
    have "mset h' = mset (l # bs)"
      unfolding h' by (simp add: siftup_mset)
    then show ?thesis by (simp add: h Cons x)
  qed
qed

subsection \<open>Preservation of the invariants\<close>

lemma set_dict_set: "set (dict_set d k v) \<subseteq> insert (k, v) (set d)"
  by (induction d k v rule: dict_set.induct) auto

lemma length_filter_mono:
  assumes "\<And>x. x \<in> set xs \<Longrightarrow> P x \<Longrightarrow> Q x"
  shows "length (filter P xs) \<le> length (filter Q xs)"
  using assms by (induction xs) auto

lemma batch_ok_mono:
  assumes "batch_ok s b" "length (objects s) \<le> length (objects s')"
    and "\<And>r. retired s r \<Longrightarrow> retired s' r"
  shows "batch_ok s' b"
proof -
  have "length (filter (retired s) (jobs b)) \<le> length (filter (retired s') (jobs b))"
    by (rule length_filter_mono) (rule assms(3))
  with assms(1,2) show ?thesis by (fastforce simp: batch_ok_def)
qed

lemma table_ok_step:
  assumes "table_ok s" "length (objects s) \<le> length (objects s')"
    and "\<And>r. retired s r \<Longrightarrow> retired s' r"
    and "\<And>kv. kv \<in> set (batch_requests s') \<Longrightarrow>
               kv \<in> set (batch_requests s) \<or> batch_ok s' (snd kv)"
  shows "table_ok s'"
  unfolding table_ok_def
proof
  fix kv
  assume "kv \<in> set (batch_requests s')"
  from assms(4)[OF this] show "batch_ok s' (snd kv)"
  proof
    assume "kv \<in> set (batch_requests s)"
    with assms(1) have "batch_ok s (snd kv)" by (simp add: table_ok_def)
    then show ?thesis by (rule batch_ok_mono[OF _ assms(2) assms(3)])
  next
    assume "batch_ok s' (snd kv)"
    then show ?thesis .
  qed
qed

text \<open>The invariants read the job objects, the queue, the worker and the table only.\<close>

lemma retired_frame:
  assumes "objects s' = objects s" "job_queue s' = job_queue s" "worker s' = worker s"
  shows "retired s' = retired s"
  using assms by (simp add: fun_eq_iff retired_def holds_def)

lemma inv_frame:
  assumes "objects s' = objects s" "job_queue s' = job_queue s" "worker s' = worker s"
  shows "queue_ok s' = queue_ok s" and "worker_ok s' = worker_ok s"
    and "batch_ok s' b = batch_ok s b"
  using assms retired_frame[OF assms]
  by (simp_all add: queue_ok_def worker_ok_def holds_def batch_ok_def)

lemma service_inv_frame:
  assumes "service_inv s"
    and "objects s' = objects s" "job_queue s' = job_queue s" "worker s' = worker s"
    and "\<And>kv. kv \<in> set (batch_requests s') \<Longrightarrow>
               kv \<in> set (batch_requests s) \<or> batch_ok s (snd kv)"
  shows "service_inv s'"
proof -
  note f = inv_frame[OF assms(2-4)]
  have "table_ok s'"
    using assms(1,5) by (auto simp: table_ok_def service_inv_def f)
  with assms(1) show ?thesis by (simp add: service_inv_def f)
qed

subsubsection \<open>The writes of the API\<close>

lemma queue_put_mset: "mset (job_queue (queue_put r s)) = add_mset r (mset (job_queue s))"
  by (simp add: queue_put_def heappush_mset)

lemma submit_job_state:
  "fst (submit_job uuid kind i rq prio now s) = length (objects s) \<and>
   objects (snd (submit_job uuid kind i rq prio now s)) =
     objects s @ [new_job uuid kind i rq prio now] \<and>
   mset (job_queue (snd (submit_job uuid kind i rq prio now s))) =
     add_mset (length (objects s)) (mset (job_queue s)) \<and>
   worker (snd (submit_job uuid kind i rq prio now s)) = worker s \<and>
   batch_requests (snd (submit_job uuid kind i rq prio now s)) = batch_requests s"
  by (simp add: submit_job_def Let_def queue_put_def heappush_mset)

lemma submit_job_inv:
  assumes "service_inv s"
  shows "service_inv (snd (submit_job uuid kind i rq prio now s))"
proof -
  let ?s' = "snd (submit_job uuid kind i rq prio now s)"
  let ?n = "length (objects s)"
  note st = submit_job_state[of uuid kind i rq prio now s]
  from assms have q: "queue_ok s" and w: "worker_ok s" and t: "table_ok s"
    by (simp_all add: service_inv_def)
  have ob: "objects ?s' = objects s @ [new_job uuid kind i rq prio now]"
    and wk: "worker ?s' = worker s" and br: "batch_requests ?s' = batch_requests s"
    using st by simp_all
  have m: "mset (job_queue ?s') = mset (?n # job_queue s)" using st by simp
  have qs: "set (job_queue ?s') = insert ?n (set (job_queue s))"
    using mset_eq_setD[OF m] by simp
  have old: "x < ?n" if "x \<in> set (job_queue s)" for x
    using q that by (simp add: queue_ok_def)
  have "distinct (?n # job_queue s)" using q old by (auto simp: queue_ok_def)
  with m have d: "distinct (job_queue ?s')" by (metis mset_eq_imp_distinct_iff)
  have "x < length (objects ?s') \<and>
        (status (objects ?s' ! x) = PENDING \<or> status (objects ?s' ! x) = CANCELLED)"
    if "x \<in> set (job_queue ?s')" for x
  proof (cases "x = ?n")
    case True
    then show ?thesis by (simp add: ob new_job_def)
  next
    case False
    with that qs have "x \<in> set (job_queue s)" by simp
    with q show ?thesis by (auto simp: queue_ok_def ob nth_append)
  qed
  with d have "queue_ok ?s'" by (simp add: queue_ok_def)
  moreover have "worker_ok ?s'"
    using w old by (auto simp: worker_ok_def holds_def wk ob qs nth_append)
  moreover have "table_ok ?s'"
  proof (rule table_ok_step[OF t])
    show "length (objects s) \<le> length (objects ?s')" by (simp add: ob)
    show "retired ?s' r" if "retired s r" for r
      using that by (auto simp: retired_def holds_def wk ob qs nth_append)
    show "kv \<in> set (batch_requests s) \<or> batch_ok ?s' (snd kv)"
      if "kv \<in> set (batch_requests ?s')" for kv
      using that by (simp add: br)
  qed
  ultimately show ?thesis by (simp add: service_inv_def)
qed

lemma store_batch_state:
  "objects (store_batch uuid nm js now est s) = objects s \<and>
   job_queue (store_batch uuid nm js now est s) = job_queue s \<and>
   worker (store_batch uuid nm js now est s) = worker s \<and>
   batch_requests (store_batch uuid nm js now est s) =
     dict_set (batch_requests s) uuid
       \<lparr>batch_id = uuid, name = nm, jobs = js, batch_created_at = now,
        total_jobs = int (length js), completed_jobs = 0, failed_jobs = 0,
        batch_status = PENDING, estimated_duration = Some est, actual_duration = None\<rparr>"
  by (simp add: store_batch_def Let_def save_persistent_data_def)

lemma store_batch_inv:
  assumes "service_inv s" "list_all (\<lambda>r. r < length (objects s)) js"
  shows "service_inv (store_batch uuid nm js now est s)"
proof (rule service_inv_frame[OF assms(1)])
  note st = store_batch_state[of uuid nm js now est s]
  show "objects (store_batch uuid nm js now est s) = objects s"
    and "job_queue (store_batch uuid nm js now est s) = job_queue s"
    and "worker (store_batch uuid nm js now est s) = worker s"
    using st by simp_all
  fix kv
  assume "kv \<in> set (batch_requests (store_batch uuid nm js now est s))"
  then have "kv \<in> set (batch_requests s) \<or>
      kv = (uuid, \<lparr>batch_id = uuid, name = nm, jobs = js, batch_created_at = now,
        total_jobs = int (length js), completed_jobs = 0, failed_jobs = 0,
        batch_status = PENDING, estimated_duration = Some est, actual_duration = None\<rparr>)"
    using set_dict_set[of "batch_requests s" uuid] st by auto
  then show "kv \<in> set (batch_requests s) \<or> batch_ok s (snd kv)"
    using assms(2) by (auto simp: batch_ok_def list_all_iff)
qed

lemma length_cancel_write: "length (cancel_write r objs) = length objs"
  by (simp add: cancel_write_def)

lemma status_cancel_write:
  "x < length objs \<Longrightarrow>
   status (cancel_write r objs ! x) = (if x = r then CANCELLED else status (objs ! x))"
  by (simp add: cancel_write_def nth_list_update)

lemma cancel_write_inv:
  assumes "service_inv s"
  shows "service_inv (s\<lparr>objects := cancel_write r (objects s)\<rparr>)"
proof -
  let ?s' = "s\<lparr>objects := cancel_write r (objects s)\<rparr>"
  from assms have q: "queue_ok s" and w: "worker_ok s" and t: "table_ok s"
    by (simp_all add: service_inv_def)
  have "queue_ok ?s'"
    using q by (simp add: queue_ok_def length_cancel_write status_cancel_write)
  moreover have "worker_ok ?s'"
    using w by (simp add: worker_ok_def holds_def length_cancel_write status_cancel_write)
  moreover have "table_ok ?s'"
  proof (rule table_ok_step[OF t])
    show "length (objects s) \<le> length (objects ?s')" by (simp add: length_cancel_write)
    show "retired ?s' x" if "retired s x" for x
      using that
      by (simp add: retired_def holds_def length_cancel_write status_cancel_write
            is_terminal_status_def)
    show "kv \<in> set (batch_requests s) \<or> batch_ok ?s' (snd kv)"
      if "kv \<in> set (batch_requests ?s')" for kv
      using that by simp
  qed
  ultimately show ?thesis by (simp add: service_inv_def)
qed

lemma mark_cancelled_inv:
  assumes "service_inv s"
  shows "service_inv (mark_cancelled bid s)"
proof (cases "map_of (batch_requests s) bid")
  case None
  then show ?thesis using assms by (simp add: mark_cancelled_def)
next
  case (Some b)
  then have e: "mark_cancelled bid s = save_persistent_data
      (s\<lparr>batch_requests := dict_set (batch_requests s) bid (b\<lparr>batch_status := CANCELLED\<rparr>)\<rparr>)"
    by (simp add: mark_cancelled_def)
  from Some have m: "(bid, b) \<in> set (batch_requests s)" by (rule map_of_SomeD)
  with assms have ok: "batch_ok s b" by (auto simp: service_inv_def table_ok_def)
  show ?thesis
  proof (rule service_inv_frame[OF assms])
    show "objects (mark_cancelled bid s) = objects s"
      and "job_queue (mark_cancelled bid s) = job_queue s"
      and "worker (mark_cancelled bid s) = worker s"
      by (simp_all add: e save_persistent_data_def)
    fix kv
    assume "kv \<in> set (batch_requests (mark_cancelled bid s))"
    then have "kv \<in> set (batch_requests s) \<or> kv = (bid, b\<lparr>batch_status := CANCELLED\<rparr>)"
      using set_dict_set[of "batch_requests s" bid "b\<lparr>batch_status := CANCELLED\<rparr>"]
      by (auto simp: e save_persistent_data_def)
    then show "kv \<in> set (batch_requests s) \<or> batch_ok s (snd kv)"
      using ok by (auto simp: batch_ok_def)
  qed
qed

lemma delete_inv:
  assumes "service_inv s"
  shows "service_inv (s\<lparr>batch_requests := dict_del (batch_requests s) bid\<rparr>)"
  by (rule service_inv_frame[OF assms]) (simp_all add: dict_del_def)

lemma forget_inv:
  assumes "service_inv s"
  shows "service_inv (s\<lparr>finished_jobs := dict_del (finished_jobs s) jid\<rparr>)"
  by (rule service_inv_frame[OF assms]) simp_all

lemma save_inv:
  assumes "service_inv s"
  shows "service_inv (save_persistent_data s)"
  by (rule service_inv_frame[OF assms]) (simp_all add: save_persistent_data_def)

subsubsection \<open>The steps of the worker\<close>

lemma queue_get_state:
  assumes "queue_get s = Some (r, s1)"
  shows "mset (job_queue s) = add_mset r (mset (job_queue s1)) \<and> objects s1 = objects s \<and>
         batch_requests s1 = batch_requests s \<and> worker s1 = worker s"
proof -
  from assms obtain q where q: "heappop (job_lt (objects s)) (job_queue s) = Some (r, q)"
    and s1: "s1 = s\<lparr>job_queue := q\<rparr>"
    by (auto simp: queue_get_def split: option.splits)
  from heappop_mset[OF q] s1 show ?thesis by simp
qed

lemma queue_get_inv:
  assumes "queue_ok s" "queue_get s = Some (r, s1)"
  shows "r \<in> set (job_queue s) \<and> r \<notin> set (job_queue s1) \<and> distinct (job_queue s1) \<and>
         set (job_queue s1) \<subseteq> set (job_queue s)"
proof -
  note st = queue_get_state[OF assms(2)]
  from st have m: "mset (job_queue s) = mset (r # job_queue s1)" by simp
  from assms(1) have "distinct (job_queue s)" by (simp add: queue_ok_def)
  with m have "distinct (r # job_queue s1)" by (metis mset_eq_imp_distinct_iff)
  moreover from m have "set (job_queue s) = set (r # job_queue s1)" by (rule mset_eq_setD)
  ultimately show ?thesis by auto
qed

lemma worker_get_inv:
  assumes "service_inv s"
  shows "service_inv (worker_get s)"
proof (cases "worker s = Idle \<and> queue_get s \<noteq> None")
  case False
  then show ?thesis
    using assms by (auto simp: worker_get_def split: worker_pc.splits option.splits)
next
  case True
  then obtain r s1 where g: "queue_get s = Some (r, s1)" and idle: "worker s = Idle"
    by auto
  from assms have q: "queue_ok s" and w: "worker_ok s" and t: "table_ok s"
    by (simp_all add: service_inv_def)
  note st = queue_get_state[OF g]
  note qi = queue_get_inv[OF q g]
  let ?s' = "s1\<lparr>worker := Popped r\<rparr>"
  have e: "worker_get s = ?s'" using g idle by (simp add: worker_get_def)
  have rq: "r < length (objects s)"
    "status (objects s ! r) = PENDING \<or> status (objects s ! r) = CANCELLED"
    using q qi by (auto simp: queue_ok_def)
  have "queue_ok ?s'" using q qi st by (auto simp: queue_ok_def)
  moreover have "worker_ok ?s'"
    using rq qi st by (auto simp: worker_ok_def holds_def)
  moreover have "table_ok ?s'"
  proof (rule table_ok_step[OF t])
    show "length (objects s) \<le> length (objects ?s')" by (simp add: st)
    show "retired ?s' x" if "retired s x" for x
      using that qi st by (auto simp: retired_def holds_def)
    show "kv \<in> set (batch_requests s) \<or> batch_ok ?s' (snd kv)"
      if "kv \<in> set (batch_requests ?s')" for kv
      using that by (simp add: st)
  qed
  ultimately show ?thesis by (simp add: e service_inv_def)
qed

lemma worker_test_inv:
  assumes "service_inv s"
  shows "service_inv (worker_test s)"
proof (cases "worker s")
  case (Popped r)
  from assms have q: "queue_ok s" and w: "worker_ok s" and t: "table_ok s"
    by (simp_all add: service_inv_def)
  define s' where "s' = worker_test s"
  have e: "s' = s\<lparr>worker := Idle\<rparr> \<or> s' = s\<lparr>worker := Accepted r\<rparr>"
    using Popped by (simp add: s'_def worker_test_def)
  then have f: "objects s' = objects s" "job_queue s' = job_queue s"
    "batch_requests s' = batch_requests s" "worker s' = Idle \<or> worker s' = Accepted r"
    by auto
  have h: "holds s x" if "holds s' x" for x
    using that f(4) Popped by (auto simp: holds_def)
  have "queue_ok s'" using q by (simp add: queue_ok_def f)
  moreover have "worker_ok s'" using w h by (auto simp: worker_ok_def f)
  moreover have "table_ok s'"
  proof (rule table_ok_step[OF t])
    show "length (objects s) \<le> length (objects s')" by (simp add: f)
    show "retired s' x" if "retired s x" for x
      using that h by (auto simp: retired_def f)
    show "kv \<in> set (batch_requests s) \<or> batch_ok s' (snd kv)"
      if "kv \<in> set (batch_requests s')" for kv
      using that by (simp add: f)
  qed
  ultimately show ?thesis by (simp add: s'_def service_inv_def)
qed (use assms in \<open>simp_all add: worker_test_def\<close>)

lemma process_job_begin_state:
  "objects (process_job_begin now r s) =
     (objects s)[r := (objects s ! r)\<lparr>status := PROCESSING, started_at := Some now\<rparr>] \<and>
   job_queue (process_job_begin now r s) = job_queue s \<and>
   batch_requests (process_job_begin now r s) = batch_requests s \<and>
   worker (process_job_begin now r s) = Running r"
  by (simp add: process_job_begin_def set_object_def Let_def)

lemma worker_start_inv:
  assumes "service_inv s"
  shows "service_inv (worker_start now s)"
proof (cases "worker s")
  case (Accepted r)
  from assms have q: "queue_ok s" and w: "worker_ok s" and t: "table_ok s"
    by (simp_all add: service_inv_def)
  let ?s' = "process_job_begin now r s"
  note pb = process_job_begin_state[of now r s]
  have e: "worker_start now s = ?s'" using Accepted by (simp add: worker_start_def)
  from w Accepted have r: "r < length (objects s)" "r \<notin> set (job_queue s)"
    by (simp_all add: worker_ok_def holds_def)
  have "queue_ok ?s'"
    using q r by (auto simp: queue_ok_def pb nth_list_update)
  moreover have "worker_ok ?s'"
    using r by (auto simp: worker_ok_def holds_def pb)
  moreover have "table_ok ?s'"
  proof (rule table_ok_step[OF t])
    show "length (objects s) \<le> length (objects ?s')" by (simp add: pb)
    show "retired ?s' x" if "retired s x" for x
      using that Accepted by (auto simp: retired_def holds_def pb nth_list_update)
    show "kv \<in> set (batch_requests s) \<or> batch_ok ?s' (snd kv)"
      if "kv \<in> set (batch_requests ?s')" for kv
      using that by (simp add: pb)
  qed
  ultimately show ?thesis by (simp add: e service_inv_def)
qed (use assms in \<open>simp_all add: worker_start_def\<close>)

lemma job_failed_state:
  "\<exists>job. objects (job_failed msg now r s) = (objects s)[r := job] \<and>
         batch_requests (job_failed msg now r s) = batch_requests s \<and>
         worker (job_failed msg now r s) = worker s \<and>
         ((status job = PENDING \<and>
           mset (job_queue (job_failed msg now r s)) = add_mset r (mset (job_queue s))) \<or>
          (status job = FAILED \<and> job_queue (job_failed msg now r s) = job_queue s))"
proof (cases "retry_count (objects s ! r) < max_retries (objects s ! r)")
  case True
  then show ?thesis
    by (intro exI[of _ "fst (retry_or_fail msg now (objects s ! r))"])
       (simp add: job_failed_def retry_or_fail_def Let_def queue_put_def set_object_def
          heappush_mset)
next
  case False
  then show ?thesis
    by (intro exI[of _ "fst (retry_or_fail msg now (objects s ! r))"])
       (simp add: job_failed_def retry_or_fail_def Let_def set_object_def)
qed

lemma job_succeeded_state:
  "\<exists>job. objects (job_succeeded res now now' r s) = (objects s)[r := job] \<and>
         batch_requests (job_succeeded res now now' r s) = batch_requests s \<and>
         worker (job_succeeded res now now' r s) = worker s \<and>
         ((status job = PENDING \<and>
           mset (job_queue (job_succeeded res now now' r s)) = add_mset r (mset (job_queue s))) \<or>
          ((status job = FAILED \<or> status job = COMPLETED) \<and>
           job_queue (job_succeeded res now now' r s) = job_queue s))"
proof (cases "started_at (objects s ! r)")
  case (Some t0)
  then show ?thesis
    by (intro exI[of _ "(objects s ! r)\<lparr>status := COMPLETED, completed_at := Some now,
          result := Some res, progress := 100\<rparr>"])
       (simp add: job_succeeded_def Let_def set_object_def)
next
  case None
  define s2 where "s2 = (set_object r ((objects s ! r)\<lparr>status := COMPLETED,
      completed_at := Some now, result := Some res, progress := 100\<rparr>) s)
      \<lparr>stats := (stats s)\<lparr>total_jobs_processed := total_jobs_processed (stats s) + 1\<rparr>\<rparr>"
  have e: "job_succeeded res now now' r s =
             job_failed ''unsupported operand type(s) for -'' now' r s2"
    using None by (simp add: job_succeeded_def Let_def s2_def set_object_def)
  have f: "objects s2 = (objects s)[r := (objects s ! r)\<lparr>status := COMPLETED,
      completed_at := Some now, result := Some res, progress := 100\<rparr>]"
    "batch_requests s2 = batch_requests s" "worker s2 = worker s"
    "job_queue s2 = job_queue s"
    by (simp_all add: s2_def set_object_def)
  from job_failed_state[of "''unsupported operand type(s) for -''" now' r s2]
  show ?thesis unfolding e f by auto
qed

lemma outcome_state:
  "\<exists>job. objects (case oc of Inl msg \<Rightarrow> job_failed msg now r s
                          | Inr res \<Rightarrow> job_succeeded res now now' r s) = (objects s)[r := job] \<and>
         batch_requests (case oc of Inl msg \<Rightarrow> job_failed msg now r s
                          | Inr res \<Rightarrow> job_succeeded res now now' r s) = batch_requests s \<and>
         ((status job = PENDING \<and>
           mset (job_queue (case oc of Inl msg \<Rightarrow> job_failed msg now r s
                          | Inr res \<Rightarrow> job_succeeded res now now' r s))
             = add_mset r (mset (job_queue s))) \<or>
          ((status job = FAILED \<or> status job = COMPLETED) \<and>
           job_queue (case oc of Inl msg \<Rightarrow> job_failed msg now r s
                          | Inr res \<Rightarrow> job_succeeded res now now' r s) = job_queue s))"
proof (cases oc)
  case (Inl msg)
  with job_failed_state[of msg now r s] show ?thesis by auto
next
  case (Inr res)
  with job_succeeded_state[of res now now' r s] show ?thesis by auto
qed

lemma worker_outcome_inv:
  assumes "service_inv s"
  shows "service_inv (worker_outcome outcome now now' s)"
proof (cases "worker s")
  case (Running r)
  from assms have q: "queue_ok s" and w: "worker_ok s" and t: "table_ok s"
    by (simp_all add: service_inv_def)
  from w Running have r: "r < length (objects s)" "r \<notin> set (job_queue s)"
    by (simp_all add: worker_ok_def holds_def)
  define oc where "oc = (if job_type (objects s ! r) = ''video'' \<or>
      job_type (objects s ! r) = ''audio'' \<or> job_type (objects s ! r) = ''translation''
      then outcome else Inl (''Unknown job type: '' @ job_type (objects s ! r)))"
  define s1 where "s1 = (case oc of Inl msg \<Rightarrow> job_failed msg now r s
                                   | Inr res \<Rightarrow> job_succeeded res now now' r s)"
  let ?s' = "s1\<lparr>worker := Finishing r\<rparr>"
  have e: "worker_outcome outcome now now' s = ?s'"
    using Running by (simp add: worker_outcome_def Let_def oc_def s1_def)
  from outcome_state[where oc=oc and now=now and now'=now' and r=r and s=s] obtain job where
    o: "objects s1 = (objects s)[r := job]" "batch_requests s1 = batch_requests s" and
    c: "(status job = PENDING \<and> mset (job_queue s1) = add_mset r (mset (job_queue s))) \<or>
        ((status job = FAILED \<or> status job = COMPLETED) \<and> job_queue s1 = job_queue s)"
    unfolding s1_def by blast
  have sub: "set (job_queue s1) \<subseteq> insert r (set (job_queue s))"
  proof -
    from c have "mset (job_queue s1) = mset (r # job_queue s) \<or> job_queue s1 = job_queue s"
      by auto
    then show ?thesis
    proof
      assume "mset (job_queue s1) = mset (r # job_queue s)"
      then have "set (job_queue s1) = set (r # job_queue s)" by (rule mset_eq_setD)
      then show ?thesis by simp
    next
      assume "job_queue s1 = job_queue s"
      then show ?thesis by auto
    qed
  qed
  have "queue_ok ?s'"
  proof -
    have d: "distinct (job_queue s1)"
    proof -
      from c have "mset (job_queue s1) = mset (r # job_queue s) \<or> job_queue s1 = job_queue s"
        by auto
      moreover have "distinct (r # job_queue s)" using q r by (simp add: queue_ok_def)
      ultimately show ?thesis using q by (metis mset_eq_imp_distinct_iff queue_ok_def)
    qed
    have "x < length (objects s) \<and> (status ((objects s)[r := job] ! x) = PENDING \<or>
            status ((objects s)[r := job] ! x) = CANCELLED)" if "x \<in> set (job_queue s1)" for x
    proof (cases "x = r")
      case True
      with that c r have "status job = PENDING" by auto
      with True r show ?thesis by simp
    next
      case False
      with that sub have "x \<in> set (job_queue s)" by auto
      with q False show ?thesis by (simp add: queue_ok_def)
    qed
    with d show ?thesis by (simp add: queue_ok_def o)
  qed
  moreover have "worker_ok ?s'" by (simp add: worker_ok_def holds_def)
  moreover have "table_ok ?s'"
  proof (rule table_ok_step[OF t])
    show "length (objects s) \<le> length (objects ?s')" by (simp add: o)
    show "retired ?s' x" if "retired s x" for x
    proof -
      from that Running have "x \<noteq> r" by (auto simp: retired_def holds_def)
      with that sub show ?thesis by (auto simp: retired_def holds_def o)
    qed
    show "kv \<in> set (batch_requests s) \<or> batch_ok ?s' (snd kv)"
      if "kv \<in> set (batch_requests ?s')" for kv
      using that by (simp add: o)
  qed
  ultimately show ?thesis by (simp add: e service_inv_def)
qed (use assms in \<open>simp_all add: worker_outcome_def\<close>)

lemma count_status_nonneg: "0 \<le> count_status objs st rs"
  by (simp add: count_status_def)

lemma counts_le_filter:
  assumes "\<And>x. x \<in> set rs \<Longrightarrow> status (objs ! x) = COMPLETED \<or> status (objs ! x) = FAILED \<Longrightarrow> P x"
  shows "count_status objs COMPLETED rs + count_status objs FAILED rs \<le> int (length (filter P rs))"
  using assms
proof (induction rs)
  case Nil
  then show ?case by (simp add: count_status_def)
next
  case (Cons x xs)
  then have "count_status objs COMPLETED xs + count_status objs FAILED xs
               \<le> int (length (filter P xs))"
    by simp
  moreover have "status (objs ! x) = COMPLETED \<or> status (objs ! x) = FAILED \<Longrightarrow> P x"
    using Cons.prems by simp
  ultimately show ?case by (auto simp: count_status_def)
qed

text \<open>In a state where the worker holds no job, every \<open>COMPLETED\<close> or \<open>FAILED\<close> job is
  retired, so a recount stays within the retired jobs.\<close>

lemma recount_ok:
  assumes "batch_ok s b" "queue_ok s" "\<And>r. \<not> holds s r"
  shows "batch_ok s (recount (objects s) b)"
proof -
  have "retired s x"
    if "x \<in> set (jobs b)" "status (objects s ! x) = COMPLETED \<or> status (objects s ! x) = FAILED"
    for x
    using that assms by (auto simp: retired_def batch_ok_def queue_ok_def is_terminal_status_def)
  then have "count_status (objects s) COMPLETED (jobs b) + count_status (objects s) FAILED (jobs b)
               \<le> int (length (filter (retired s) (jobs b)))"
    by (rule counts_le_filter)
  with assms(1) show ?thesis by (simp add: batch_ok_def recount_counts)
qed

lemma update_batch_status_state:
  "objects (update_batch_status r s) = objects s \<and>
   job_queue (update_batch_status r s) = job_queue s \<and>
   worker (update_batch_status r s) = worker s \<and>
   (\<forall>kv \<in> set (batch_requests (update_batch_status r s)).
      kv \<in> set (batch_requests s) \<or>
      (\<exists>b. (fst kv, b) \<in> set (batch_requests s) \<and> snd kv = recount (objects s) b))"
proof (cases "map_of (batch_requests s) (hd (split_char CHR ''_'' (job_id (objects s ! r))))")
  case None
  then show ?thesis by (simp add: update_batch_status_def Let_def)
next
  case (Some b)
  then have m: "(hd (split_char CHR ''_'' (job_id (objects s ! r))), b) \<in> set (batch_requests s)"
    by (rule map_of_SomeD)
  have e: "update_batch_status r s =
             s\<lparr>batch_requests := dict_set (batch_requests s)
                 (hd (split_char CHR ''_'' (job_id (objects s ! r)))) (recount (objects s) b)\<rparr>"
    using Some by (simp add: update_batch_status_def Let_def)
  have sub: "set (dict_set (batch_requests s)
                 (hd (split_char CHR ''_'' (job_id (objects s ! r)))) (recount (objects s) b))
             \<subseteq> insert (hd (split_char CHR ''_'' (job_id (objects s ! r))), recount (objects s) b)
                 (set (batch_requests s))"
    by (rule set_dict_set)
  show ?thesis unfolding e using sub m by fastforce
qed

lemma process_job_finally_state:
  "objects (process_job_finally r s) = objects s \<and>
   job_queue (process_job_finally r s) = job_queue s \<and>
   worker (process_job_finally r s) = worker s \<and>
   (\<forall>kv \<in> set (batch_requests (process_job_finally r s)).
      kv \<in> set (batch_requests s) \<or>
      (\<exists>b. (fst kv, b) \<in> set (batch_requests s) \<and> snd kv = recount (objects s) b))"
  using update_batch_status_state[of r "s\<lparr>active_jobs := dict_del (active_jobs s) (job_id (objects s ! r)),
            finished_jobs := dict_set (finished_jobs s) (job_id (objects s ! r)) r\<rparr>"]
  by (simp add: process_job_finally_def Let_def save_persistent_data_def)

lemma worker_finally_inv:
  assumes "service_inv s"
  shows "service_inv (worker_finally s)"
proof (cases "worker s")
  case (Finishing r)
  from assms have q: "queue_ok s" and w: "worker_ok s" and t: "table_ok s"
    by (simp_all add: service_inv_def)
  let ?s' = "(process_job_finally r s)\<lparr>worker := Idle\<rparr>"
  note pf = process_job_finally_state[of r s]
  have e: "worker_finally s = ?s'" using Finishing by (simp add: worker_finally_def)
  have none: "\<not> holds s x" for x using Finishing by (simp add: holds_def)
  have same: "retired ?s' = retired s"
    using Finishing by (simp add: fun_eq_iff retired_def holds_def pf)
  have "queue_ok ?s'" using q by (simp add: queue_ok_def pf)
  moreover have "worker_ok ?s'" by (simp add: worker_ok_def holds_def)
  moreover have "table_ok ?s'"
    unfolding table_ok_def
  proof
    fix kv
    assume "kv \<in> set (batch_requests ?s')"
    with pf have "kv \<in> set (batch_requests s) \<or>
        (\<exists>b. (fst kv, b) \<in> set (batch_requests s) \<and> snd kv = recount (objects s) b)"
      by simp
    then have "batch_ok s (snd kv)"
    proof
      assume "kv \<in> set (batch_requests s)"
      with t show ?thesis by (simp add: table_ok_def)
    next
      assume "\<exists>b. (fst kv, b) \<in> set (batch_requests s) \<and> snd kv = recount (objects s) b"
      then obtain b where b: "(fst kv, b) \<in> set (batch_requests s)"
        "snd kv = recount (objects s) b"
        by blast
      from t b(1) have "batch_ok s (snd (fst kv, b))" unfolding table_ok_def by (rule bspec)
      then have "batch_ok s b" by simp
      then show ?thesis unfolding b(2) using q none by (rule recount_ok)
    qed
    then show "batch_ok ?s' (snd kv)" by (simp add: batch_ok_def same pf)
  qed
  ultimately show ?thesis by (simp add: e service_inv_def)
qed (use assms in \<open>simp_all add: worker_finally_def\<close>)

subsubsection \<open>Every reachable state\<close>

lemma step_inv:
  assumes "service_inv s" "event_ok s ev"
  shows "service_inv (step ev s)"
proof (cases ev)
  case (ApiPut uuid kind i request prio now)
  show ?thesis unfolding ApiPut step.simps by (rule submit_job_inv[OF assms(1)])
next
  case (ApiStore uuid nm js now est)
  with assms(2) have "list_all (\<lambda>r. r < length (objects s)) js" by simp
  with assms(1) show ?thesis unfolding ApiStore step.simps by (rule store_batch_inv)
next
  case (ApiCancelJob r)
  show ?thesis unfolding ApiCancelJob step.simps by (rule cancel_write_inv[OF assms(1)])
next
  case (ApiCancelBatch bid)
  show ?thesis unfolding ApiCancelBatch step.simps by (rule mark_cancelled_inv[OF assms(1)])
next
  case (ApiDelete bid)
  show ?thesis unfolding ApiDelete step.simps by (rule delete_inv[OF assms(1)])
next
  case (ApiForget jid)
  show ?thesis unfolding ApiForget step.simps by (rule forget_inv[OF assms(1)])
next
  case ApiSave
  show ?thesis unfolding ApiSave step.simps by (rule save_inv[OF assms(1)])
next
  case WorkerGet
  show ?thesis unfolding WorkerGet step.simps by (rule worker_get_inv[OF assms(1)])
next
  case WorkerTest
  show ?thesis unfolding WorkerTest step.simps by (rule worker_test_inv[OF assms(1)])
next
  case (WorkerStart now)
  show ?thesis unfolding WorkerStart step.simps by (rule worker_start_inv[OF assms(1)])
next
  case (WorkerOutcome outcome now now')
  show ?thesis unfolding WorkerOutcome step.simps by (rule worker_outcome_inv[OF assms(1)])
next
  case WorkerFinally
  show ?thesis unfolding WorkerFinally step.simps by (rule worker_finally_inv[OF assms(1)])
qed

lemma empty_service_inv: "service_inv (empty_service workers)"
  by (simp add: service_inv_def queue_ok_def worker_ok_def holds_def table_ok_def
        empty_service_def)

lemma reachable_inv: "reachable s \<Longrightarrow> service_inv s"
proof (induction rule: reachable.induct)
  case (fresh workers)
  show ?case by (rule empty_service_inv)
next
  case (after s ev)
  from after.IH after.hyps(2) show ?case by (rule step_inv)
qed

subsection \<open>The calls of the API are runs of the events\<close>

lemma reachable_submit:
  assumes "reachable s"
  shows "reachable (snd (submit_job uuid kind i rq prio now s))"
  using reachable.after[OF assms, of "ApiPut uuid kind i rq prio now"] by simp

lemma reachable_add_jobs:
  "reachable s \<Longrightarrow> reachable (snd (add_jobs uuid kind prio clock i requests js s))"
proof (induction requests arbitrary: i js s)
  case Nil
  then show ?case by simp
next
  case (Cons rq rqs)
  have "reachable (snd (submit_job uuid kind i rq prio (clock i) s))"
    using Cons.prems by (rule reachable_submit)
  from Cons.IH[OF this] show ?case by (simp add: case_prod_beta Let_def)
qed

lemma reachable_create:
  assumes "reachable s"
  shows "reachable (snd (create_batch kind title uuid clock est requests nm prio s))"
proof -
  obtain title' k where nk: "(case nm of
        None \<Rightarrow> (title @ '' Batch '' @ strftime_name (clock 0), 1)
      | Some n \<Rightarrow> if n = [] then (title @ '' Batch '' @ strftime_name (clock 0), 1)
                  else (n, 0)) = (title', k::nat)"
    by (cases "(case nm of
        None \<Rightarrow> (title @ '' Batch '' @ strftime_name (clock 0), 1)
      | Some n \<Rightarrow> if n = [] then (title @ '' Batch '' @ strftime_name (clock 0), 1)
                  else (n, 0::nat))") auto
  let ?clock = "\<lambda>i. clock (k + i)"
  obtain js s1 where a: "add_jobs uuid kind prio ?clock 0 requests [] s = (js, s1)"
    by (cases "add_jobs uuid kind prio ?clock 0 requests [] s")
  have js: "js = [length (objects s)..<length (objects s) + length requests]"
    using add_jobs_refs[of uuid kind prio ?clock 0 requests "[]" s] a by simp
  have ob: "objects s1 = objects s @ new_jobs uuid kind prio ?clock 0 requests"
    using add_jobs_objects[of uuid kind prio ?clock 0 requests "[]" s] a by simp
  have r1: "reachable s1"
    using reachable_add_jobs[OF assms, of uuid kind prio ?clock 0 requests "[]"] a by simp
  have ok: "event_ok s1 (ApiStore uuid title' js (clock (k + length requests)) est)"
    by (simp add: js ob length_new_jobs list_all_iff)
  have e: "snd (create_batch kind title uuid clock est requests nm prio s) =
             step (ApiStore uuid title' js (clock (k + length requests)) est) s1"
    using a nk by (simp add: create_batch_def)
  show ?thesis unfolding e using r1 ok by (rule reachable.after)
qed

lemma reachable_fold_cancel:
  "reachable s \<Longrightarrow> reachable (s\<lparr>objects := fold cancel_job rs (objects s)\<rparr>)"
proof (induction rs arbitrary: s)
  case Nil
  then show ?case by simp
next
  case (Cons x xs)
  have "reachable (s\<lparr>objects := cancel_job x (objects s)\<rparr>)"
  proof (cases "status (objects s ! x) = PENDING")
    case True
    then have "s\<lparr>objects := cancel_job x (objects s)\<rparr> = step (ApiCancelJob x) s"
      by (simp add: cancel_job_def)
    then show ?thesis using reachable.after[OF Cons.prems, of "ApiCancelJob x"] by simp
  next
    case False
    then show ?thesis using Cons.prems by (simp add: cancel_job_def)
  qed
  from Cons.IH[OF this] show ?case by simp
qed

lemma reachable_cancel:
  assumes "reachable s"
  shows "reachable (snd (cancel_batch bid s))"
proof (cases "map_of (batch_requests s) bid")
  case None
  then show ?thesis using assms by (simp add: cancel_batch_def)
next
  case (Some b)
  let ?s1 = "s\<lparr>objects := fold cancel_job (jobs b) (objects s)\<rparr>"
  have r1: "reachable ?s1" using assms by (rule reachable_fold_cancel)
  have e: "snd (cancel_batch bid s) = step (ApiCancelBatch bid) ?s1"
    using Some by (simp add: cancel_batch_def mark_cancelled_def Let_def)
  show ?thesis unfolding e using r1 by (rule reachable.after) simp
qed

lemma reachable_fold_delete:
  "reachable s \<Longrightarrow>
   reachable (s\<lparr>batch_requests := fold (\<lambda>bid d. dict_del d bid) ks (batch_requests s)\<rparr>)"
proof (induction ks arbitrary: s)
  case Nil
  then show ?case by simp
next
  case (Cons k ks)
  have "reachable (step (ApiDelete k) s)" using Cons.prems by (rule reachable.after) simp
  from Cons.IH[OF this] show ?case by simp
qed

lemma reachable_fold_forget:
  "reachable s \<Longrightarrow>
   reachable (s\<lparr>finished_jobs := fold (\<lambda>jid d. dict_del d jid) ks (finished_jobs s)\<rparr>)"
proof (induction ks arbitrary: s)
  case Nil
  then show ?case by simp
next
  case (Cons k ks)
  have "reachable (step (ApiForget k) s)" using Cons.prems by (rule reachable.after) simp
  from Cons.IH[OF this] show ?case by simp
qed

lemma reachable_cleanup:
  assumes "reachable s"
  shows "reachable (snd (cleanup_old_batches days_old now now' s))"
proof (cases "minus_days now days_old")
  case None
  then show ?thesis using assms by (simp add: cleanup_old_batches_def)
next
  case (Some cutoff_date)
  define s1 where "s1 = s\<lparr>batch_requests :=
      fold (\<lambda>bid d. dict_del d bid)
        (map fst (filter (\<lambda>kv. old_batch cutoff_date (snd kv)) (batch_requests s)))
        (batch_requests s)\<rparr>"
  have r1: "reachable s1" unfolding s1_def using assms by (rule reachable_fold_delete)
  show ?thesis
  proof (cases "minus_days now' days_old")
    case None
    then show ?thesis using Some r1 by (simp add: cleanup_old_batches_def Let_def s1_def)
  next
    case (Some cutoff_time)
    define s2 where "s2 = s1\<lparr>finished_jobs :=
        fold (\<lambda>jid d. dict_del d jid)
          (map fst (filter (\<lambda>kv. old_job cutoff_time (objects s1 ! snd kv)) (finished_jobs s1)))
          (finished_jobs s1)\<rparr>"
    have r2: "reachable s2" unfolding s2_def using r1 by (rule reachable_fold_forget)
    have "reachable (step ApiSave s2)" using r2 by (rule reachable.after) simp
    moreover have "snd (cleanup_old_batches days_old now now' s) = step ApiSave s2"
      using Some \<open>minus_days now days_old = Some cutoff_date\<close>
      by (simp add: cleanup_old_batches_def Let_def s1_def s2_def)
    ultimately show ?thesis by simp
  qed
qed

subsection \<open>Sample runs\<close>

lemma heappush_empty: "heappush lt [] x = [x]"
  by (simp add: heappush_def siftdown_def siftdown_loop.simps)

lemma heappop_single: "heappop lt [x] = Some (x, [])"
  by (simp add: heappop_def)

lemma sample_uuid_ok: "is_uuid_str sample_uuid"
  by code_simp

lemma one_job_state:
  "objects one_job_service =
     [new_job sample_uuid ''audio'' 0 [(''text'', JStr ''hello'')] MEDIUM sample_time] \<and>
   job_queue one_job_service = [0] \<and> worker one_job_service = Idle \<and>
   (\<exists>b. batch_requests one_job_service = [(sample_uuid, b)] \<and>
        jobs b = [0] \<and> total_jobs b = 1 \<and> completed_jobs b = 0 \<and> failed_jobs b = 0 \<and>
        batch_status b = PENDING)"
  by (simp add: one_job_service_def create_audio_batch_def create_batch_def store_batch_def
        submit_job_def Let_def queue_put_def heappush_empty empty_service_def
        save_persistent_data_def)

lemma one_job_reachable: "reachable one_job_service"
  unfolding one_job_service_def create_audio_batch_def
  by (rule reachable_create) (rule reachable.fresh)

lemma cancel_batch_state:
  assumes "map_of (batch_requests s) bid = Some b"
  shows "fst (cancel_batch bid s) = True \<and>
         objects (snd (cancel_batch bid s)) = fold cancel_job (jobs b) (objects s) \<and>
         batch_requests (snd (cancel_batch bid s)) =
           dict_set (batch_requests s) bid (b\<lparr>batch_status := CANCELLED\<rparr>) \<and>
         job_queue (snd (cancel_batch bid s)) = job_queue s \<and>
         worker (snd (cancel_batch bid s)) = worker s"
  using assms by (simp add: cancel_batch_def Let_def save_persistent_data_def)

lemma cancelled_run_reachable: "reachable cancelled_run"
  unfolding cancelled_run_def using one_job_reachable by (rule reachable_cancel)

lemma cancelled_run_state:
  "length (objects cancelled_run) = 1 \<and> status (objects cancelled_run ! 0) = CANCELLED \<and>
   job_queue cancelled_run = [0] \<and> worker cancelled_run = Idle \<and>
   (\<exists>b. batch_requests cancelled_run = [(sample_uuid, b)] \<and> jobs b = [0] \<and>
        total_jobs b = 1 \<and> completed_jobs b = 0 \<and> failed_jobs b = 0)"
proof -
  from one_job_state obtain b where b: "batch_requests one_job_service = [(sample_uuid, b)]"
    "jobs b = [0]" "total_jobs b = 1" "completed_jobs b = 0" "failed_jobs b = 0"
    by blast
  have m: "map_of (batch_requests one_job_service) sample_uuid = Some b" by (simp add: b)
  note k = cancel_batch_state[OF m]
  show ?thesis
    unfolding cancelled_run_def using one_job_state b
    by (simp add: k cancel_job_def cancel_write_def new_job_def)
qed

text \<open>The steps of the worker on the job it holds.\<close>

lemma worker_get_single:
  assumes "worker s = Idle" "job_queue s = [r]"
  shows "worker_get s = s\<lparr>job_queue := [], worker := Popped r\<rparr>"
  using assms by (simp add: worker_get_def queue_get_def heappop_single)

lemma worker_test_pass:
  assumes "worker s = Popped r" "status (objects s ! r) \<noteq> CANCELLED"
  shows "worker_test s = s\<lparr>worker := Accepted r\<rparr>"
  using assms by (simp add: worker_test_def)

lemma worker_test_discard:
  assumes "worker s = Popped r" "status (objects s ! r) = CANCELLED"
  shows "worker_test s = s\<lparr>worker := Idle\<rparr>"
  using assms by (simp add: worker_test_def)

lemma worker_start_state:
  assumes "worker s = Accepted r"
  shows "objects (worker_start now s) =
           (objects s)[r := (objects s ! r)\<lparr>status := PROCESSING, started_at := Some now\<rparr>] \<and>
         job_queue (worker_start now s) = job_queue s \<and>
         batch_requests (worker_start now s) = batch_requests s \<and>
         worker (worker_start now s) = Running r"
  using assms by (simp add: worker_start_def process_job_begin_state)

lemma worker_outcome_success:
  assumes "worker s = Running r" "job_type (objects s ! r) = ''audio''"
    and "started_at (objects s ! r) = Some t0"
  shows "objects (worker_outcome (Inr res) now now' s) =
           (objects s)[r := (objects s ! r)\<lparr>status := COMPLETED, completed_at := Some now,
                                            result := Some res, progress := 100\<rparr>] \<and>
         job_queue (worker_outcome (Inr res) now now' s) = job_queue s \<and>
         batch_requests (worker_outcome (Inr res) now now' s) = batch_requests s \<and>
         worker (worker_outcome (Inr res) now now' s) = Finishing r"
  using assms by (simp add: worker_outcome_def job_succeeded_def set_object_def Let_def)

lemma worker_finally_state:
  assumes "worker s = Finishing r"
  shows "objects (worker_finally s) = objects s \<and> job_queue (worker_finally s) = job_queue s \<and>
         worker (worker_finally s) = Idle \<and>
         batch_requests (worker_finally s) =
           (case map_of (batch_requests s) (hd (split_char CHR ''_'' (job_id (objects s ! r)))) of
              None \<Rightarrow> batch_requests s
            | Some b \<Rightarrow> dict_set (batch_requests s)
                         (hd (split_char CHR ''_'' (job_id (objects s ! r))))
                         (recount (objects s) b))"
  using assms
  by (simp add: worker_finally_def process_job_finally_def update_batch_status_def Let_def
        save_persistent_data_def split: option.splits)

lemma race_tested_state:
  "objects race_tested = objects one_job_service \<and> job_queue race_tested = [] \<and>
   worker race_tested = Accepted 0 \<and> batch_requests race_tested = batch_requests one_job_service"
proof -
  have g: "worker_get one_job_service = one_job_service\<lparr>job_queue := [], worker := Popped 0\<rparr>"
    using one_job_state by (intro worker_get_single) simp_all
  have "status (objects (worker_get one_job_service) ! 0) \<noteq> CANCELLED"
    using one_job_state by (simp add: g new_job_def)
  then have "worker_test (worker_get one_job_service) =
               (worker_get one_job_service)\<lparr>worker := Accepted 0\<rparr>"
    by (intro worker_test_pass) (simp_all add: g)
  then show ?thesis by (simp add: race_tested_def g)
qed

lemma race_tested_reachable: "reachable race_tested"
proof -
  have "reachable (step WorkerGet one_job_service)"
    using one_job_reachable by (rule reachable.after) simp
  then have "reachable (step WorkerTest (step WorkerGet one_job_service))"
    by (rule reachable.after) simp
  then show ?thesis by (simp add: race_tested_def)
qed

lemma completed_run_reachable: "reachable completed_run"
proof -
  have "reachable (run evs s)" if "reachable s" "list_all (\<lambda>ev. \<forall>t. event_ok t ev) evs"
    for evs s
    using that
  proof (induction evs arbitrary: s)
    case Nil
    then show ?case by (simp add: run_def)
  next
    case (Cons ev evs)
    have "reachable (step ev s)" using Cons.prems by (intro reachable.after) simp_all
    with Cons show ?case by (simp add: run_def)
  qed
  from this[OF one_job_reachable] show ?thesis
    unfolding completed_run_def by simp
qed

lemma completed_run_state:
  "status (objects completed_run ! 0) = COMPLETED \<and>
   (\<exists>b. batch_requests completed_run = [(sample_uuid, b)] \<and> jobs b = [0] \<and>
        total_jobs b = 1 \<and> completed_jobs b = 1 \<and> failed_jobs b = 0)"
proof -
  define job0 where "job0 = new_job sample_uuid ''audio'' 0 [(''text'', JStr ''hello'')] MEDIUM
                              sample_time"
  define s3 where "s3 = worker_start sample_time race_tested"
  define s4 where "s4 = worker_outcome (Inr [(''audio_path'', JStr ''a.mp3'')]) sample_time
                          sample_time s3"
  have e: "completed_run = worker_finally s4"
    by (simp add: completed_run_def run_def race_tested_def s3_def s4_def)
  from one_job_state obtain b where b: "batch_requests one_job_service = [(sample_uuid, b)]"
    "jobs b = [0]" "total_jobs b = 1"
    and o: "objects one_job_service = [job0]"
    unfolding job0_def by blast
  note t = race_tested_state
  have f3: "objects s3 = [job0\<lparr>status := PROCESSING, started_at := Some sample_time\<rparr>]"
    "batch_requests s3 = [(sample_uuid, b)]" "worker s3 = Running 0"
    using worker_start_state[of race_tested 0 sample_time] t by (simp_all add: s3_def o b)
  have f4: "objects s4 = [job0\<lparr>status := COMPLETED, started_at := Some sample_time,
                                completed_at := Some sample_time,
                                result := Some [(''audio_path'', JStr ''a.mp3'')],
                                progress := 100\<rparr>]"
    "batch_requests s4 = [(sample_uuid, b)]" "worker s4 = Finishing 0"
    using worker_outcome_success[of s3 0 sample_time "[(''audio_path'', JStr ''a.mp3'')]"
            sample_time sample_time]
    by (simp_all add: s4_def f3 job0_def new_job_def)
  have key: "hd (split_char CHR ''_'' (job_id (objects s4 ! 0))) = sample_uuid"
    using sample_job_key[of "''audio''" 0 "[(''text'', JStr ''hello'')]" MEDIUM sample_time]
    by (simp add: f4 job0_def)
  have st: "status (objects s4 ! 0) = COMPLETED" by (simp add: f4)
  have c: "count_status (objects s4) COMPLETED [0] = 1" "count_status (objects s4) FAILED [0] = 0"
    by (simp_all add: count_status_def st)
  note w = worker_finally_state[of s4 0]
  have tb: "batch_requests (worker_finally s4) = [(sample_uuid, recount (objects s4) b)]"
    using w by (simp add: f4(2,3) key)
  have ob: "objects (worker_finally s4) = objects s4" using w by (simp add: f4(3))
  show ?thesis
    unfolding e by (simp add: tb ob st recount_counts b c)
qed

subsection \<open>Counters of a batch\<close>

lemma batch_ok_counters:
  assumes "batch_ok s b"
  shows "completed_jobs b + failed_jobs b \<le> total_jobs b \<and>
         (completed_jobs b + failed_jobs b = total_jobs b \<longrightarrow>
            (\<forall>r \<in> set (jobs b). retired s r))"
proof -
  from assms have t: "total_jobs b = int (length (jobs b))"
    and c: "completed_jobs b + failed_jobs b \<le> int (length (filter (retired s) (jobs b)))"
    by (simp_all add: batch_ok_def)
  have "int (length (filter (retired s) (jobs b))) \<le> int (length (jobs b))" by simp
  with c t have le: "completed_jobs b + failed_jobs b \<le> total_jobs b" by linarith
  have "retired s r" if eq: "completed_jobs b + failed_jobs b = total_jobs b"
    and r: "r \<in> set (jobs b)" for r
  proof (rule ccontr)
    assume "\<not> retired s r"
    with r have "length (filter (retired s) (jobs b)) < length (jobs b)"
      by (rule length_filter_less)
    with c t eq show False by simp
  qed
  with le show ?thesis by blast
qed

text \<open>
  C1, as the code has it. In every reachable state and for every batch of the table,
  \<^verbatim>\<open>completed_jobs + failed_jobs \<le> total_jobs\<close>, and when the two counters add up to
  \<^verbatim>\<open>total_jobs\<close> the batch is terminal: every job of it is \<open>COMPLETED\<close>, \<open>FAILED\<close> or
  \<open>CANCELLED\<close>. The converse does not hold: a terminal batch can stay below \<^verbatim>\<open>total_jobs\<close>,
  because a cancelled job is counted in neither counter and because the recount runs only
  when the worker finishes a job of a batch that is in the table.
\<close>

theorem batch_counters:
  assumes "reachable s" "(bid, b) \<in> set (batch_requests s)"
  shows "completed_jobs b + failed_jobs b \<le> total_jobs b \<and>
         (completed_jobs b + failed_jobs b = total_jobs b \<longrightarrow>
            (\<forall>r \<in> set (jobs b). is_terminal_status (status (objects s ! r))))"
proof -
  from reachable_inv[OF assms(1)] assms(2) have "batch_ok s b"
    by (auto simp: service_inv_def table_ok_def)
  from batch_ok_counters[OF this] show ?thesis by (auto simp: retired_def)
qed

theorem batch_counters_witness:
  "reachable completed_run \<and>
   (\<exists>b. (sample_uuid, b) \<in> set (batch_requests completed_run) \<and> jobs b = [0] \<and>
        total_jobs b = 1 \<and> completed_jobs b + failed_jobs b = total_jobs b \<and>
        is_terminal_status (status (objects completed_run ! 0)))"
proof -
  from completed_run_state obtain b where b: "batch_requests completed_run = [(sample_uuid, b)]"
    "jobs b = [0]" "total_jobs b = 1" "completed_jobs b = 1" "failed_jobs b = 0"
    by blast
  then have m: "(sample_uuid, b) \<in> set (batch_requests completed_run)" by simp
  from batch_counters[OF completed_run_reachable m] m b completed_run_reachable
  show ?thesis by auto
qed

text \<open>
  C1 as stated fails from right to left: in \<open>cancelled_run\<close>, which is reachable, the only
  job of the batch is \<open>CANCELLED\<close>, so the batch is terminal, and its counters add up to 0
  while \<^verbatim>\<open>total_jobs\<close> is 1.
\<close>

theorem terminal_batch_counters_short:
  "reachable cancelled_run \<and>
   (\<exists>b. map_of (batch_requests cancelled_run) sample_uuid = Some b \<and> jobs b = [0] \<and>
        is_terminal_status (status (objects cancelled_run ! 0)) \<and>
        completed_jobs b + failed_jobs b = 0 \<and> total_jobs b = 1 \<and>
        completed_jobs b + failed_jobs b \<noteq> total_jobs b)"
  using cancelled_run_state cancelled_run_reachable
  by (auto simp: is_terminal_status_def)

text \<open>The counters also stay behind when the worker finishes a job before the submission has
  stored the batch: in \<open>early_worker_run\<close> the only job of the batch is \<open>COMPLETED\<close> and
  both counters are 0.\<close>

lemma early_worker_run_state:
  "reachable early_worker_run \<and> status (objects early_worker_run ! 0) = COMPLETED \<and>
   (\<exists>b. batch_requests early_worker_run = [(sample_uuid, b)] \<and> jobs b = [0] \<and>
        total_jobs b = 1 \<and> completed_jobs b = 0 \<and> failed_jobs b = 0)"
proof -
  define job0 where "job0 = new_job sample_uuid ''audio'' 0 [(''text'', JStr ''hello'')] MEDIUM
                              sample_time"
  define s1 where "s1 = step (ApiPut sample_uuid ''audio'' 0 [(''text'', JStr ''hello'')] MEDIUM
                                sample_time) (empty_service 4)"
  define s2 where "s2 = worker_get s1"
  define s3 where "s3 = worker_test s2"
  define s4 where "s4 = worker_start sample_time s3"
  define s5 where "s5 = worker_outcome (Inr [(''audio_path'', JStr ''a.mp3'')]) sample_time
                          sample_time s4"
  define s6 where "s6 = worker_finally s5"
  define s7 where "s7 = step (ApiStore sample_uuid ''Audio Batch 20240115_100000'' [0]
                                sample_time 0.25) s6"
  have e: "early_worker_run = s7"
    by (simp add: early_worker_run_def run_def s1_def s2_def s3_def s4_def s5_def s6_def s7_def)
  have f1: "objects s1 = [job0]" "job_queue s1 = [0]" "worker s1 = Idle" "batch_requests s1 = []"
    by (simp_all add: s1_def submit_job_def Let_def queue_put_def heappush_empty
          empty_service_def job0_def)
  have g: "s2 = s1\<lparr>job_queue := [], worker := Popped 0\<rparr>"
    unfolding s2_def using f1 by (intro worker_get_single) simp_all
  have f2: "objects s2 = [job0]" "worker s2 = Popped 0" "batch_requests s2 = []"
    by (simp_all add: g f1)
  have "status (objects s2 ! 0) \<noteq> CANCELLED" by (simp add: f2 job0_def new_job_def)
  with f2(2) have t: "s3 = s2\<lparr>worker := Accepted 0\<rparr>"
    unfolding s3_def by (rule worker_test_pass)
  have f3: "objects s3 = [job0]" "worker s3 = Accepted 0" "batch_requests s3 = []"
    by (simp_all add: t f2)
  have f4: "objects s4 = [job0\<lparr>status := PROCESSING, started_at := Some sample_time\<rparr>]"
    "batch_requests s4 = []" "worker s4 = Running 0"
    using worker_start_state[of s3 0 sample_time] by (simp_all add: s4_def f3)
  have f5: "objects s5 = [job0\<lparr>status := COMPLETED, started_at := Some sample_time,
                                completed_at := Some sample_time,
                                result := Some [(''audio_path'', JStr ''a.mp3'')],
                                progress := 100\<rparr>]"
    "batch_requests s5 = []" "worker s5 = Finishing 0"
    using worker_outcome_success[of s4 0 sample_time "[(''audio_path'', JStr ''a.mp3'')]"
            sample_time sample_time]
    by (simp_all add: s5_def f4 job0_def new_job_def)
  have f6: "objects s6 = objects s5" "batch_requests s6 = []"
    using worker_finally_state[of s5 0] by (simp_all add: s6_def f5)
  have f7: "objects s7 = objects s5"
    "batch_requests s7 =
       [(sample_uuid, \<lparr>batch_id = sample_uuid, name = ''Audio Batch 20240115_100000'', jobs = [0],
          batch_created_at = sample_time, total_jobs = 1, completed_jobs = 0, failed_jobs = 0,
          batch_status = PENDING, estimated_duration = Some 0.25, actual_duration = None\<rparr>)]"
    using store_batch_state[of sample_uuid "''Audio Batch 20240115_100000''" "[0]" sample_time
            "0.25" s6]
    by (simp_all add: s7_def f6)
  have "reachable s1" unfolding s1_def by (intro reachable.after reachable.fresh) simp
  then have "reachable (step WorkerGet s1)" by (rule reachable.after) simp
  then have "reachable (step WorkerTest (step WorkerGet s1))" by (rule reachable.after) simp
  then have "reachable (step (WorkerStart sample_time) (step WorkerTest (step WorkerGet s1)))"
    by (rule reachable.after) simp
  then have "reachable s4" by (simp add: s2_def s3_def s4_def)
  then have "reachable (step (WorkerOutcome (Inr [(''audio_path'', JStr ''a.mp3'')]) sample_time
                                sample_time) s4)"
    by (rule reachable.after) simp
  then have "reachable (step WorkerFinally (step (WorkerOutcome (Inr [(''audio_path'',
                JStr ''a.mp3'')]) sample_time sample_time) s4))"
    by (rule reachable.after) simp
  then have "reachable s6" by (simp add: s5_def s6_def)
  then have "reachable s7"
    unfolding s7_def by (rule reachable.after) (simp add: f6 f5)
  then show ?thesis unfolding e by (simp add: f7 f5)
qed

subsection \<open>Cancelled jobs and the worker\<close>

text \<open>
  What the test of \<^verbatim>\<open>_process_queue\<close> does, in any state: a popped job that is \<open>CANCELLED\<close>
  when the worker tests it is dropped. The worker is idle again, and no job object, queue
  entry or batch has changed, so no executor has been called for the job.
\<close>

lemma cancelled_at_test_discarded:
  assumes "worker s = Popped r" "status (objects s ! r) = CANCELLED"
  shows "worker_test s = s\<lparr>worker := Idle\<rparr>"
  using assms by (rule worker_test_discard)

lemma race_cancelled_state:
  "fst (cancel_batch sample_uuid race_tested) = True \<and>
   status (objects race_tested ! 0) = PENDING \<and>
   status (objects race_cancelled ! 0) = CANCELLED \<and> length (objects race_cancelled) = 1 \<and>
   worker race_cancelled = Accepted 0"
proof -
  from one_job_state obtain b where b: "batch_requests one_job_service = [(sample_uuid, b)]"
    "jobs b = [0]"
    by blast
  note t = race_tested_state
  have m: "map_of (batch_requests race_tested) sample_uuid = Some b" by (simp add: t b)
  note k = cancel_batch_state[OF m]
  show ?thesis
    unfolding race_cancelled_def using one_job_state
    by (simp add: k t b cancel_job_def cancel_write_def new_job_def)
qed

lemma race_started_reachable: "reachable race_started"
proof -
  have "reachable race_cancelled"
    unfolding race_cancelled_def using race_tested_reachable by (rule reachable_cancel)
  then have "reachable (step (WorkerStart sample_time) race_cancelled)"
    by (rule reachable.after) simp
  then show ?thesis by (simp add: race_started_def)
qed

text \<open>
  C9 fails in the code. The worker pops the only job of \<open>one_job_service\<close> and finds it
  \<open>PENDING\<close> at its test; \<^verbatim>\<open>cancel_batch\<close> then runs on the API thread, returns
  \<^verbatim>\<open>True\<close> and sets the job to \<open>CANCELLED\<close>; the worker goes on into \<^verbatim>\<open>_process_job\<close>,
  which writes \<open>PROCESSING\<close> over \<open>CANCELLED\<close> without reading the status again, and the
  task executor runs for the cancelled job. Every state of this run is reachable.
\<close>

theorem cancelled_after_test_is_processed:
  "reachable race_started \<and>
   worker race_tested = Accepted 0 \<and> status (objects race_tested ! 0) = PENDING \<and>
   fst (cancel_batch sample_uuid race_tested) = True \<and>
   status (objects race_cancelled ! 0) = CANCELLED \<and> worker race_cancelled = Accepted 0 \<and>
   status (objects race_started ! 0) = PROCESSING \<and> worker race_started = Running 0"
proof -
  note c = race_cancelled_state
  have "objects race_started =
          (objects race_cancelled)[0 := (objects race_cancelled ! 0)
             \<lparr>status := PROCESSING, started_at := Some sample_time\<rparr>]"
    and "worker race_started = Running 0"
    using worker_start_state[of race_cancelled 0 sample_time] c
    by (simp_all add: race_started_def)
  then show ?thesis
    using c race_tested_state race_started_reachable by simp
qed

end
